theory Spec2Isabelle
  imports
    Main
    "HOL-Library.Word"
    "HOL-Library.Char_ord"
    "HOL-Library.List_Lexorder"
    "HOL-Library.Product_Lexorder"
    "HOL-Library.AList"
    "HOL-Library.Countable"
begin

section \<open>Errors\<close>

text \<open>
  Every exception the modelled Python can raise is a value of this type; a function that
  can raise returns \<open>error + 'a\<close>, with \<open>Inl\<close> for the exception.
\<close>

datatype error =
    GridNot3D              \<comment> \<open>\<open>ValueError("Grid must be 3D, ...")\<close>\<close>
  | InvalidMagic           \<comment> \<open>\<open>ValueError("Invalid magic: ...")\<close>\<close>
  | UnsupportedVersion nat \<comment> \<open>\<open>ValueError("Unsupported version: ...")\<close>\<close>
  | UnsupportedEncoding    \<comment> \<open>\<open>ValueError("Unsupported encoding: ...")\<close>\<close>
  | UnexpectedEOF nat nat nat  \<comment> \<open>\<open>ValueError("Unexpected EOF at z=, y=, x=")\<close>\<close>
  | InvalidRunLength nat nat   \<comment> \<open>\<open>ValueError("Invalid run_length=0 at z=, y=")\<close>\<close>
  | RowLengthMismatch nat nat  \<comment> \<open>\<open>ValueError("Row length mismatch at z=, y=: ...")\<close>\<close>
  | StructError            \<comment> \<open>\<open>struct.error\<close>: value out of range, or a short buffer\<close>
  | OverflowError          \<comment> \<open>\<open>struct.pack("<f", v)\<close> with \<open>v\<close> too large for float32\<close>
  | TypeError              \<comment> \<open>a constructor called with a wrong keyword, or \<open>**\<close> on a non-mapping\<close>
  | AttributeError         \<comment> \<open>\<open>d.get\<close> on a value that is not a dict\<close>
  | MissingManifest        \<comment> \<open>\<open>ValueError("Invalid .stella file: missing manifest.json")\<close>\<close>
  | JSONDecodeError string \<comment> \<open>\<open>json.loads\<close> on text that is not JSON, with its message\<close>
  | KeyError               \<comment> \<open>\<open>zf.read\<close> of a name the archive does not have\<close>
  | OSError                \<comment> \<open>a failure of the underlying storage\<close>
  | FileNotFoundError      \<comment> \<open>opening a path that does not exist\<close>
  | BadZipFile             \<comment> \<open>\<open>zipfile.ZipFile\<close> on a file that is not a ZIP archive\<close>
  | IsADirectoryError      \<comment> \<open>opening a directory as a file\<close>

section \<open>The RLEVOX codec (\<open>stella/vox_rle.py\<close>)\<close>

type_synonym byte = "8 word"

definition MAGIC :: "byte list" where
  "MAGIC = [0x53, 0x54, 0x56, 0x58]"   \<comment> \<open>\<open>b"STVX"\<close>\<close>

definition VERSION :: nat where
  "VERSION = 1"

definition HEADER_SIZE :: nat where
  "HEADER_SIZE = 64"

definition ENCODING :: "byte list" where
  "ENCODING = [0x52, 0x4C, 0x45, 0x31]"   \<comment> \<open>\<open>b"RLE1"\<close>\<close>

subsection \<open>\<open>struct.pack\<close> and \<open>struct.unpack\<close>, little-endian\<close>

text \<open>
  \<open>struct.pack\<close> raises \<open>struct.error\<close> for an integer outside the format's range;
  \<open>struct.unpack\<close> raises it for a buffer that is not exactly the format's size.
\<close>

definition pack_B :: "nat \<Rightarrow> error + byte list" where
  "pack_B n = (if n < 256 then Inr [of_nat n] else Inl StructError)"

definition pack_H :: "nat \<Rightarrow> error + byte list" where
  "pack_H n = (if n < 65536 then Inr [of_nat (n mod 256), of_nat (n div 256)]
               else Inl StructError)"

definition pack_I :: "nat \<Rightarrow> error + byte list" where
  "pack_I n =
     (if n < 4294967296
      then Inr [of_nat (n mod 256), of_nat (n div 256 mod 256),
                of_nat (n div 65536 mod 256), of_nat (n div 16777216)]
      else Inl StructError)"

definition unpack_B :: "byte list \<Rightarrow> error + nat" where
  "unpack_B bs = (case bs of [b0] \<Rightarrow> Inr (unat b0) | _ \<Rightarrow> Inl StructError)"

definition unpack_H :: "byte list \<Rightarrow> error + nat" where
  "unpack_H bs =
     (case bs of [b0, b1] \<Rightarrow> Inr (unat b0 + 256 * unat b1) | _ \<Rightarrow> Inl StructError)"

definition unpack_I :: "byte list \<Rightarrow> error + nat" where
  "unpack_I bs =
     (case bs of
        [b0, b1, b2, b3] \<Rightarrow>
          Inr (unat b0 + 256 * unat b1 + 65536 * unat b2 + 16777216 * unat b3)
      | _ \<Rightarrow> Inl StructError)"

text \<open>
  The float32 conversions of \<open>struct\<close> are parameters of the model: \<open>pack_f\<close> stands
  for \<open>struct.pack("<f", v)\<close> on a Python float of type \<open>'f\<close> (it rounds to float32 and
  raises for a value too large), \<open>unpack_f\<close> for \<open>struct.unpack("<f", bs)[0]\<close> on four
  bytes. A buffer of another size raises \<open>struct.error\<close> before any conversion.
\<close>

definition unpack_float :: "(byte list \<Rightarrow> 'f) \<Rightarrow> byte list \<Rightarrow> error + 'f" where
  "unpack_float unpack_f bs = (if length bs = 4 then Inr (unpack_f bs) else Inl StructError)"

text \<open>Consecutive \<open>f.write\<close> calls: the first one that raises ends the writing.\<close>

fun write_all :: "(error + byte list) list \<Rightarrow> error + byte list" where
  "write_all [] = Inr []"
| "write_all (Inl e # ws) = Inl e"
| "write_all (Inr bs # ws) =
     (case write_all ws of Inl e \<Rightarrow> Inl e | Inr rest \<Rightarrow> Inr (bs @ rest))"

subsection \<open>The voxel grid\<close>

text \<open>
  A numpy boolean array: its shape and its cells in C order. For a 3-dimensional array of
  shape \<open>(dim_x, dim_y, dim_z)\<close> the cell \<open>grid[x, y, z]\<close> is at
  \<open>(x * dim_y + y) * dim_z + z\<close>.
\<close>

record ndarray =
  shape :: "nat list"
  cells :: "bool list"

definition cell_index :: "nat \<Rightarrow> nat \<Rightarrow> nat \<Rightarrow> nat \<Rightarrow> nat \<Rightarrow> nat" where
  "cell_index dim_y dim_z x y z = (x * dim_y + y) * dim_z + z"

definition grid_row :: "nat \<Rightarrow> nat \<Rightarrow> nat \<Rightarrow> bool list \<Rightarrow> nat \<Rightarrow> nat \<Rightarrow> bool list" where
  \<comment> \<open>\<open>grid[:, y, z]\<close>\<close>
  "grid_row dim_x dim_y dim_z cs y z =
     map (\<lambda>x. cs ! cell_index dim_y dim_z x y z) [0..<dim_x]"

definition np_zeros :: "nat \<Rightarrow> nat \<Rightarrow> nat \<Rightarrow> ndarray" where
  "np_zeros dim_x dim_y dim_z =
     \<lparr>shape = [dim_x, dim_y, dim_z], cells = replicate (dim_x * dim_y * dim_z) False\<rparr>"

definition set_slice :: "nat \<Rightarrow> nat \<Rightarrow> bool list \<Rightarrow> nat \<Rightarrow> nat \<Rightarrow> nat \<Rightarrow> nat \<Rightarrow> bool list" where
  \<comment> \<open>\<open>grid[x:end_x, y, z] = True\<close>\<close>
  "set_slice dim_y dim_z cs x end_x y z =
     fold (\<lambda>i acc. acc[cell_index dim_y dim_z i y z := True]) [x..<end_x] cs"

subsection \<open>Encoding a row\<close>

text \<open>
  \<open>_encode_rle_row\<close>: the loop over \<open>range(1, len(row))\<close> with its three variables;
  \<open>int(row[i])\<close> is 0 or 1.
\<close>

fun rle_loop :: "bool list \<Rightarrow> nat \<Rightarrow> nat \<Rightarrow> (nat \<times> nat) list \<Rightarrow> (nat \<times> nat) list" where
  "rle_loop [] run_length current_value runs = runs @ [(run_length, current_value)]"
| "rle_loop (b # rest) run_length current_value runs =
     (if of_bool b = current_value
      then rle_loop rest (run_length + 1) current_value runs
      else rle_loop rest 1 (of_bool b) (runs @ [(run_length, current_value)]))"

definition encode_rle_row :: "bool list \<Rightarrow> (nat \<times> nat) list" where
  "encode_rle_row row =
     (case row of [] \<Rightarrow> [] | b # rest \<Rightarrow> rle_loop rest 1 (of_bool b) [])"

text \<open>
  The \<open>while remaining > 0\<close> loop of \<open>write_rlevox\<close>: the run records
  \<open>(run_length, value)\<close> written for one run.
\<close>

function split_run :: "nat \<Rightarrow> nat \<Rightarrow> (nat \<times> nat) list" where
  "split_run remaining v =
     (if remaining > 0
      then (min remaining 65535, v) # split_run (remaining - min remaining 65535) v
      else [])"
  by pat_completeness auto
termination
  by (relation "measure fst") auto

declare split_run.simps [simp del]

definition row_records :: "bool list \<Rightarrow> (nat \<times> nat) list" where
  "row_records row = concat (map (\<lambda>(run_length, v). split_run run_length v) (encode_rle_row row))"

definition pack_record :: "nat \<times> nat \<Rightarrow> error + byte list" where
  "pack_record r = write_all [pack_H (fst r), pack_B (snd r), pack_B 0]"

definition grid_records :: "nat \<Rightarrow> nat \<Rightarrow> nat \<Rightarrow> bool list \<Rightarrow> (nat \<times> nat) list" where
  \<comment> \<open>\<open>for z in range(dim_z): for y in range(dim_y): ...\<close>\<close>
  "grid_records dim_x dim_y dim_z cs =
     concat (map (\<lambda>z. concat (map (\<lambda>y. row_records (grid_row dim_x dim_y dim_z cs y z))
                                   [0..<dim_y]))
                 [0..<dim_z])"

definition write_header ::
  "('f \<Rightarrow> error + byte list) \<Rightarrow> nat \<Rightarrow> nat \<Rightarrow> nat \<Rightarrow> 'f \<Rightarrow> 'f \<times> 'f \<times> 'f \<Rightarrow> error + byte list" where
  "write_header pack_f dim_x dim_y dim_z voxel_size origin =
     (case origin of (origin_x, origin_y, origin_z) \<Rightarrow>
        (case write_all
                [Inr MAGIC, pack_H VERSION, pack_H HEADER_SIZE,
                 pack_I dim_x, pack_I dim_y, pack_I dim_z,
                 pack_f voxel_size,
                 pack_f origin_x, pack_f origin_y, pack_f origin_z,
                 Inr ENCODING, pack_I 0] of
           Inl e \<Rightarrow> Inl e
         | Inr hdr \<Rightarrow>
             (let current_pos = length hdr in
              if current_pos < HEADER_SIZE
              then Inr (hdr @ replicate (HEADER_SIZE - current_pos) 0)
              else Inr hdr)))"

definition write_rlevox ::
  "('f \<Rightarrow> error + byte list) \<Rightarrow> ndarray \<Rightarrow> 'f \<Rightarrow> 'f \<times> 'f \<times> 'f \<Rightarrow> error + byte list" where
  "write_rlevox pack_f grid voxel_size origin =
     (case shape grid of
        [dim_x, dim_y, dim_z] \<Rightarrow>
          write_all
            (write_header pack_f dim_x dim_y dim_z voxel_size origin
             # map pack_record (grid_records dim_x dim_y dim_z (cells grid)))
      | _ \<Rightarrow> Inl GridNot3D)"

subsection \<open>Decoding\<close>

text \<open>
  The \<open>while x < dim_x\<close> loop of \<open>read_rlevox\<close> for the row \<open>(y, z)\<close>: \<open>bs\<close> is what
  the file still holds at the read position, \<open>cs\<close> the cells of the grid being filled.
  \<open>f.read(4)\<close> returns fewer than four bytes only at the end of the file.
\<close>

function read_row ::
  "nat \<Rightarrow> nat \<Rightarrow> nat \<Rightarrow> nat \<Rightarrow> nat \<Rightarrow> nat \<Rightarrow> byte list \<Rightarrow> bool list
   \<Rightarrow> error + (byte list \<times> bool list)" where
  "read_row dim_x dim_y dim_z y z x bs cs =
     (if x < dim_x then
        (let run_data = take 4 bs in
         if length run_data < 4 then Inl (UnexpectedEOF z y x)
         else
           (let run_length = unat (run_data ! 0) + 256 * unat (run_data ! 1);
                v = unat (run_data ! 2);
                flags = unat (run_data ! 3)
            in if run_length = 0 then Inl (InvalidRunLength z y)
               else
                 (let end_x = min (x + run_length) dim_x
                  in read_row dim_x dim_y dim_z y z end_x (drop 4 bs)
                       (if v = 1 then set_slice dim_y dim_z cs x end_x y z else cs))))
      else if x \<noteq> dim_x then Inl (RowLengthMismatch z y)
      else Inr (bs, cs))"
  by pat_completeness auto
termination
  by (relation "measure (\<lambda>(dim_x, dim_y, dim_z, y, z, x, bs, cs). dim_x - x)") auto

declare read_row.simps [simp del]

fun read_ys ::
  "nat \<Rightarrow> nat \<Rightarrow> nat \<Rightarrow> nat \<Rightarrow> nat list \<Rightarrow> byte list \<Rightarrow> bool list
   \<Rightarrow> error + (byte list \<times> bool list)" where
  "read_ys dim_x dim_y dim_z z [] bs cs = Inr (bs, cs)"
| "read_ys dim_x dim_y dim_z z (y # ys) bs cs =
     (case read_row dim_x dim_y dim_z y z 0 bs cs of
        Inl e \<Rightarrow> Inl e
      | Inr (bs', cs') \<Rightarrow> read_ys dim_x dim_y dim_z z ys bs' cs')"

fun read_zs ::
  "nat \<Rightarrow> nat \<Rightarrow> nat \<Rightarrow> nat list \<Rightarrow> byte list \<Rightarrow> bool list
   \<Rightarrow> error + (byte list \<times> bool list)" where
  "read_zs dim_x dim_y dim_z [] bs cs = Inr (bs, cs)"
| "read_zs dim_x dim_y dim_z (z # zs) bs cs =
     (case read_ys dim_x dim_y dim_z z [0..<dim_y] bs cs of
        Inl e \<Rightarrow> Inl e
      | Inr (bs', cs') \<Rightarrow> read_zs dim_x dim_y dim_z zs bs' cs')"

definition bind_e :: "error + 'a \<Rightarrow> ('a \<Rightarrow> error + 'b) \<Rightarrow> error + 'b" where
  \<comment> \<open>run the next statement unless the previous one raised\<close>
  "bind_e r k = (case r of Inl e \<Rightarrow> Inl e | Inr v \<Rightarrow> k v)"

definition check_e :: "bool \<Rightarrow> error \<Rightarrow> error + 'b \<Rightarrow> error + 'b" where
  \<comment> \<open>\<open>if not ok: raise e\<close>, then the rest\<close>
  "check_e ok e k = (if ok then k else Inl e)"

definition read_payload ::
  "nat \<Rightarrow> nat \<Rightarrow> nat \<Rightarrow> byte list \<Rightarrow> error + ndarray" where
  "read_payload dim_x dim_y dim_z bs =
     bind_e (read_zs dim_x dim_y dim_z [0..<dim_z] bs (cells (np_zeros dim_x dim_y dim_z)))
       (\<lambda>r. Inr \<lparr>shape = [dim_x, dim_y, dim_z], cells = snd r\<rparr>)"

definition read_rlevox ::
  "(byte list \<Rightarrow> 'f) \<Rightarrow> byte list \<Rightarrow> error + (ndarray \<times> 'f \<times> ('f \<times> 'f \<times> 'f))" where
  "read_rlevox unpack_f file =
     check_e (take 4 file = MAGIC) InvalidMagic
    (bind_e (unpack_H (take 2 (drop 4 file))) (\<lambda>version.
     check_e (version = VERSION) (UnsupportedVersion version)
    (bind_e (unpack_H (take 2 (drop 6 file))) (\<lambda>header_size.
     bind_e (unpack_I (take 4 (drop 8 file))) (\<lambda>dim_x.
     bind_e (unpack_I (take 4 (drop 12 file))) (\<lambda>dim_y.
     bind_e (unpack_I (take 4 (drop 16 file))) (\<lambda>dim_z.
     bind_e (unpack_float unpack_f (take 4 (drop 20 file))) (\<lambda>voxel_size.
     bind_e (unpack_float unpack_f (take 4 (drop 24 file))) (\<lambda>origin_x.
     bind_e (unpack_float unpack_f (take 4 (drop 28 file))) (\<lambda>origin_y.
     bind_e (unpack_float unpack_f (take 4 (drop 32 file))) (\<lambda>origin_z.
     check_e (take 4 (drop 36 file) = ENCODING) UnsupportedEncoding
    (bind_e (unpack_I (take 4 (drop 40 file))) (\<lambda>reserved.
     bind_e (read_payload dim_x dim_y dim_z (drop header_size file)) (\<lambda>grid.
     Inr (grid, voxel_size, (origin_x, origin_y, origin_z))))))))))))))))"

subsection \<open>Maximal runs, as the specification words them\<close>

text \<open>
  The specification's notion of a run: a maximal contiguous span of identical cell values
  along one row, written \<open>(length, value)\<close>. A list of runs is the maximal-run
  decomposition of a row when the runs spell out the row, every run is non-empty with a
  value of 0 or 1, and neighbouring runs differ in value (so none can be extended).
\<close>

fun expand_runs :: "(nat \<times> nat) list \<Rightarrow> bool list" where
  "expand_runs [] = []"
| "expand_runs (r # rs) = replicate (fst r) (snd r = 1) @ expand_runs rs"

fun adjacent_differ :: "(nat \<times> nat) list \<Rightarrow> bool" where
  "adjacent_differ (a # b # rs) = (snd a \<noteq> snd b \<and> adjacent_differ (b # rs))"
| "adjacent_differ rs = True"

definition maximal_runs :: "(nat \<times> nat) list \<Rightarrow> bool list \<Rightarrow> bool" where
  "maximal_runs rs row \<longleftrightarrow>
     expand_runs rs = row \<and> (\<forall>r \<in> set rs. 0 < fst r \<and> snd r \<le> 1) \<and> adjacent_differ rs"


subsection \<open>Auxiliary functions for the proofs about the codec\<close>

text \<open>The four bytes of a run record whose fields are in range.\<close>

definition record_bytes :: "nat \<times> nat \<Rightarrow> byte list" where
  "record_bytes r = [of_nat (fst r mod 256), of_nat (fst r div 256), of_nat (snd r), 0]"

text \<open>
  The cells after the decoder has applied the run records \<open>rs\<close> to the row \<open>(y, z)\<close>
  from column \<open>x\<close> on, none of them overshooting.
\<close>

fun paint_runs ::
  "nat \<Rightarrow> nat \<Rightarrow> nat \<Rightarrow> nat \<Rightarrow> nat \<Rightarrow> (nat \<times> nat) list \<Rightarrow> bool list \<Rightarrow> bool list" where
  "paint_runs dim_y dim_z y z x [] cs = cs"
| "paint_runs dim_y dim_z y z x (r # rs) cs =
     paint_runs dim_y dim_z y z (x + fst r) rs
       (if snd r = 1 then set_slice dim_y dim_z cs x (x + fst r) y z else cs)"

text \<open>
  \<open>cs'\<close> is \<open>cs\<close> with the cells at the indices satisfying \<open>P\<close> set: what a sequence of
  slice assignments \<open>grid[...] = True\<close> does to the cells.
\<close>

definition painted :: "bool list \<Rightarrow> bool list \<Rightarrow> (nat \<Rightarrow> bool) \<Rightarrow> bool" where
  "painted cs cs' P \<longleftrightarrow> length cs' = length cs \<and> (\<forall>j < length cs. cs' ! j = (cs ! j \<or> P j))"

definition rows_bytes :: "nat \<Rightarrow> nat \<Rightarrow> nat \<Rightarrow> bool list \<Rightarrow> nat \<Rightarrow> nat list \<Rightarrow> byte list" where
  \<comment> \<open>the bytes written for the rows \<open>(y, z)\<close>, \<open>y\<close> running through \<open>ys\<close>\<close>
  "rows_bytes dim_x dim_y dim_z g z ys =
     concat (map record_bytes
       (concat (map (\<lambda>y. row_records (grid_row dim_x dim_y dim_z g y z)) ys)))"

definition planes_bytes :: "nat \<Rightarrow> nat \<Rightarrow> nat \<Rightarrow> bool list \<Rightarrow> nat list \<Rightarrow> byte list" where
  \<comment> \<open>the bytes written for all rows of the planes \<open>z\<close> in \<open>zs\<close>\<close>
  "planes_bytes dim_x dim_y dim_z g zs =
     concat (map (\<lambda>z. rows_bytes dim_x dim_y dim_z g z [0..<dim_y]) zs)"

section \<open>The manifest (\<open>stella/manifest.py\<close>)\<close>

text \<open>
  Text is modelled as \<open>string\<close>, taken to be ASCII, where Python's \<open>str\<close> and its UTF-8
  encoding coincide: \<open>.encode("utf-8")\<close> and \<open>.decode("utf-8")\<close> are the identity.
  A value parsed by \<open>json.loads\<close>, and any value a dataclass field can hold (the
  dataclasses check no types), is a \<open>json\<close>; a Python dict is the list of its items in
  insertion order, with distinct keys. Numbers are integers: the manifest has no other.
\<close>

datatype json =
    JNull
  | JBool bool
  | JInt int
  | JStr string
  | JList "json list"
  | JDict "(string \<times> json) list"

text \<open>
  The values can be enumerated, so a serializer that a parser inverts exists; the
  examples take one for \<open>json.dumps\<close> and \<open>json.loads\<close>.
\<close>

instance json :: countable
  by countable_datatype

definition dict_get :: "(string \<times> json) list \<Rightarrow> string \<Rightarrow> json \<Rightarrow> json" where
  \<comment> \<open>\<open>d.get(key, default)\<close>\<close>
  "dict_get d key dflt = (case map_of d key of Some v \<Rightarrow> v | None \<Rightarrow> dflt)"

fun truthy :: "json \<Rightarrow> bool" where
  "truthy JNull = False"
| "truthy (JBool b) = b"
| "truthy (JInt n) = (n \<noteq> 0)"
| "truthy (JStr s) = (s \<noteq> [])"
| "truthy (JList xs) = (xs \<noteq> [])"
| "truthy (JDict kvs) = (kvs \<noteq> [])"

fun py_iter :: "json \<Rightarrow> error + json list" where
  \<comment> \<open>\<open>for x in v\<close>: a dict yields its keys, a string its characters\<close>
  "py_iter (JList xs) = Inr xs"
| "py_iter (JDict kvs) = Inr (map (\<lambda>kv. JStr (fst kv)) kvs)"
| "py_iter (JStr s) = Inr (map (\<lambda>c. JStr [c]) s)"
| "py_iter v = Inl TypeError"

fun kwargs :: "json \<Rightarrow> error + (string \<times> json) list" where
  \<comment> \<open>\<open>**v\<close> in a call: \<open>v\<close> must be a mapping (with string keys, as JSON objects have)\<close>
  "kwargs (JDict kvs) = Inr kvs"
| "kwargs v = Inl TypeError"

record axis =
  ax_up :: json
  ax_forward :: json
  ax_handedness :: json

record generator =
  gen_name :: json
  gen_version :: json
  gen_git_commit :: json

record world =
  w_title :: json
  w_tags :: json
  w_privacy :: json

record level =
  lvl_id :: json
  lvl_path :: json
  lvl_name :: json

record manifest =
  m_format :: json
  m_version :: json
  m_created_utc :: json
  m_units :: json
  m_axis :: axis
  m_levels :: "level list"
  m_generator :: "generator option"
  m_world :: "world option"
  m_assets :: json

text \<open>
  The generated \<open>__init__\<close> of a dataclass, called with keyword arguments: a keyword that
  is not a field raises \<open>TypeError\<close>, and so does a missing field without default; an
  absent field with a default takes it.
\<close>

definition Axis_init :: "(string \<times> json) list \<Rightarrow> error + axis" where
  "Axis_init kw =
     (if list_all (\<lambda>k. k \<in> set [''up'', ''forward'', ''handedness'']) (map fst kw)
      then Inr \<lparr>ax_up = dict_get kw ''up'' (JStr ''Y''),
                ax_forward = dict_get kw ''forward'' (JStr ''-Z''),
                ax_handedness = dict_get kw ''handedness'' (JStr ''right'')\<rparr>
      else Inl TypeError)"

definition Generator_init :: "(string \<times> json) list \<Rightarrow> error + generator" where
  "Generator_init kw =
     (if list_all (\<lambda>k. k \<in> set [''name'', ''version'', ''git_commit'']) (map fst kw)
      then Inr \<lparr>gen_name = dict_get kw ''name'' (JStr ''stella-cli''),
                gen_version = dict_get kw ''version'' (JStr ''0.1.0''),
                gen_git_commit = dict_get kw ''git_commit'' JNull\<rparr>
      else Inl TypeError)"

definition World_init :: "(string \<times> json) list \<Rightarrow> error + world" where
  "World_init kw =
     (if list_all (\<lambda>k. k \<in> set [''title'', ''tags'', ''privacy'']) (map fst kw)
      then Inr \<lparr>w_title = dict_get kw ''title'' (JStr ''Untitled World''),
                w_tags = dict_get kw ''tags'' (JList []),
                w_privacy = dict_get kw ''privacy''
                              (JDict [(''contains_source_media'', JBool False)])\<rparr>
      else Inl TypeError)"

definition Level_init :: "(string \<times> json) list \<Rightarrow> error + level" where
  "Level_init kw =
     (if list_all (\<lambda>k. k \<in> set [''id'', ''path'', ''name'']) (map fst kw)
         \<and> ''id'' \<in> set (map fst kw) \<and> ''path'' \<in> set (map fst kw)
      then Inr \<lparr>lvl_id = dict_get kw ''id'' JNull,
                lvl_path = dict_get kw ''path'' JNull,
                lvl_name = dict_get kw ''name'' JNull\<rparr>
      else Inl TypeError)"

fun Level_list :: "json list \<Rightarrow> error + level list" where
  \<comment> \<open>\<open>[Level(**lvl) for lvl in ...]\<close>\<close>
  "Level_list [] = Inr []"
| "Level_list (lvl # rest) =
     bind_e (kwargs lvl) (\<lambda>kw.
     bind_e (Level_init kw) (\<lambda>l.
     bind_e (Level_list rest) (\<lambda>ls. Inr (l # ls))))"

definition optional_init ::
  "((string \<times> json) list \<Rightarrow> error + 'a) \<Rightarrow> (string \<times> json) list \<Rightarrow> string
   \<Rightarrow> error + 'a option" where
  \<comment> \<open>\<open>x = None; if key in d and d[key]: x = Cls(**d[key])\<close>\<close>
  "optional_init init d key =
     (case map_of d key of
        None \<Rightarrow> Inr None
      | Some v \<Rightarrow>
          if truthy v
          then bind_e (kwargs v) (\<lambda>kw. bind_e (init kw) (\<lambda>x. Inr (Some x)))
          else Inr None)"

text \<open>
  \<open>Manifest.from_dict\<close>. \<open>now\<close> is the value of
  \<open>datetime.now(timezone.utc).isoformat()\<close> at the call. Called on a value that is not a
  dict, \<open>d.get\<close> raises \<open>AttributeError\<close>.
\<close>

definition from_dict :: "string \<Rightarrow> json \<Rightarrow> error + manifest" where
  "from_dict now v =
     (case v of
        JDict d \<Rightarrow>
          bind_e (kwargs (dict_get d ''axis'' (JDict []))) (\<lambda>axis_kw.
          bind_e (Axis_init axis_kw) (\<lambda>axis.
          bind_e (py_iter (dict_get d ''levels'' (JList []))) (\<lambda>lvls.
          bind_e (Level_list lvls) (\<lambda>levels.
          bind_e (optional_init Generator_init d ''generator'') (\<lambda>generator.
          bind_e (optional_init World_init d ''world'') (\<lambda>world.
          Inr \<lparr>m_format = dict_get d ''format'' (JStr ''stella.world''),
               m_version = dict_get d ''version'' (JInt 1),
               m_created_utc = dict_get d ''created_utc'' (JStr now),
               m_units = dict_get d ''units'' (JStr ''meters''),
               m_axis = axis,
               m_levels = levels,
               m_generator = generator,
               m_world = world,
               m_assets = dict_get d ''assets'' (JDict [])\<rparr>))))))
      | _ \<Rightarrow> Inl AttributeError)"

definition from_json :: "(string \<Rightarrow> error + json) \<Rightarrow> string \<Rightarrow> string \<Rightarrow> error + manifest" where
  \<comment> \<open>\<open>loads\<close> stands for \<open>json.loads\<close>\<close>
  "from_json loads now json_str = bind_e (loads json_str) (from_dict now)"

definition drop_none :: "(string \<times> json) list \<Rightarrow> (string \<times> json) list" where
  \<comment> \<open>\<open>{k: v for k, v in d.items() if v is not None}\<close>\<close>
  "drop_none d = filter (\<lambda>kv. snd kv \<noteq> JNull) d"

definition axis_asdict :: "axis \<Rightarrow> json" where
  "axis_asdict a =
     JDict [(''up'', ax_up a), (''forward'', ax_forward a), (''handedness'', ax_handedness a)]"

definition level_to_dict :: "level \<Rightarrow> json" where
  "level_to_dict l =
     JDict (drop_none [(''id'', lvl_id l), (''path'', lvl_path l), (''name'', lvl_name l)])"

definition generator_to_dict :: "generator \<Rightarrow> json" where
  "generator_to_dict g =
     JDict (drop_none [(''name'', gen_name g), (''version'', gen_version g),
                       (''git_commit'', gen_git_commit g)])"

definition world_asdict :: "world \<Rightarrow> json" where
  "world_asdict w =
     JDict [(''title'', w_title w), (''tags'', w_tags w), (''privacy'', w_privacy w)]"

definition to_dict :: "manifest \<Rightarrow> json" where
  "to_dict m =
     JDict
       ([(''format'', m_format m), (''version'', m_version m),
         (''created_utc'', m_created_utc m), (''units'', m_units m),
         (''axis'', axis_asdict (m_axis m)),
         (''levels'', JList (map level_to_dict (m_levels m)))]
        @ (case m_generator m of None \<Rightarrow> [] | Some g \<Rightarrow> [(''generator'', generator_to_dict g)])
        @ (case m_world m of None \<Rightarrow> [] | Some w \<Rightarrow> [(''world'', world_asdict w)])
        @ (if truthy (m_assets m) then [(''assets'', m_assets m)] else []))"

definition to_json :: "(json \<Rightarrow> string) \<Rightarrow> manifest \<Rightarrow> string" where
  \<comment> \<open>\<open>dumps\<close> stands for \<open>json.dumps(..., indent=2)\<close>\<close>
  "to_json dumps m = dumps (to_dict m)"

definition make_manifest ::
  "string \<Rightarrow> string \<Rightarrow> level list option \<Rightarrow> json list option \<Rightarrow> string option \<Rightarrow> manifest" where
  "make_manifest now title levels tags thumbnail =
     \<lparr>m_format = JStr ''stella.world'',
      m_version = JInt 1,
      m_created_utc = JStr now,
      m_units = JStr ''meters'',
      m_axis = \<lparr>ax_up = JStr ''Y'', ax_forward = JStr ''-Z'', ax_handedness = JStr ''right''\<rparr>,
      m_levels =
        (case levels of
           None \<Rightarrow> [\<lparr>lvl_id = JStr ''0'', lvl_path = JStr ''levels/0/level.json'',
                     lvl_name = JStr ''Floor 0''\<rparr>]
         | Some ls \<Rightarrow> ls),
      m_generator =
        Some \<lparr>gen_name = JStr ''stella-cli'', gen_version = JStr ''0.1.0'',
              gen_git_commit = JNull\<rparr>,
      m_world =
        Some \<lparr>w_title = JStr title,
              w_tags = JList (case tags of None \<Rightarrow> [] | Some ts \<Rightarrow> ts),
              w_privacy = JDict [(''contains_source_media'', JBool False)]\<rparr>,
      m_assets =
        JDict (case thumbnail of
                 None \<Rightarrow> []
               | Some t \<Rightarrow> if t = [] then [] else [(''thumbnail'', JStr t)])\<rparr>"

definition manifest_keys :: "string list" where
  \<comment> \<open>the keys \<open>Manifest.from_dict\<close> looks up in its argument\<close>
  "manifest_keys =
     [''axis'', ''levels'', ''generator'', ''world'', ''format'', ''version'',
      ''created_utc'', ''units'', ''assets'']"

section \<open>The container (\<open>stella/package.py\<close>)\<close>

text \<open>
  A ZIP archive is the list of its members in the order they were written, each a name
  and its bytes; compression and the container's own metadata are not modelled, nor
  what \<open>zipfile\<close> itself does to an unusual name (one with a NUL character, an empty
  one): names are stored as given. A regular file holds an archive or something else;
  the file system maps a path to a regular file or a directory.
\<close>

type_synonym archive = "(string \<times> string) list"

datatype file_content = ZipFile archive | OtherFile string

datatype node = File file_content | Directory

type_synonym filesystem = "string \<rightharpoonup> node"

definition namelist :: "archive \<Rightarrow> string list" where
  "namelist zf = map fst zf"

definition zf_read :: "archive \<Rightarrow> string \<Rightarrow> error + string" where
  \<comment> \<open>\<open>zf.read(name)\<close>: of two members with one name, the one written last\<close>
  "zf_read zf name = (case map_of (rev zf) name of Some bs \<Rightarrow> Inr bs | None \<Rightarrow> Inl KeyError)"

definition zf_open :: "filesystem \<Rightarrow> string \<Rightarrow> error + archive" where
  \<comment> \<open>\<open>zipfile.ZipFile(path, "r")\<close>\<close>
  "zf_open fs p =
     (case fs p of
        None \<Rightarrow> Inl FileNotFoundError
      | Some Directory \<Rightarrow> Inl IsADirectoryError
      | Some (File (OtherFile bs)) \<Rightarrow> Inl BadZipFile
      | Some (File (ZipFile zf)) \<Rightarrow> Inr zf)"

subsection \<open>Python's string methods\<close>

definition NL :: char where
  "NL = CHR 0x0A"

definition py_isspace :: "char \<Rightarrow> bool" where
  \<comment> \<open>the ASCII characters \<open>str.strip()\<close> removes\<close>
  "py_isspace c \<longleftrightarrow>
     c \<in> set [CHR '' '', CHR 0x09, CHR 0x0A, CHR 0x0B, CHR 0x0C, CHR 0x0D,
               CHR 0x1C, CHR 0x1D, CHR 0x1E, CHR 0x1F]"

definition py_strip :: "string \<Rightarrow> string" where
  "py_strip s = rev (dropWhile py_isspace (rev (dropWhile py_isspace s)))"

fun py_split_char :: "char \<Rightarrow> string \<Rightarrow> string list" where
  \<comment> \<open>\<open>s.split(sep)\<close> for a separator of one character\<close>
  "py_split_char sep [] = [[]]"
| "py_split_char sep (c # s) =
     (if c = sep then [] # py_split_char sep s
      else (case py_split_char sep s of
              [] \<Rightarrow> [[c]]
            | part # parts \<Rightarrow> (c # part) # parts))"

fun split_once :: "string \<Rightarrow> string \<Rightarrow> (string \<times> string) option" where
  \<comment> \<open>\<open>s.split(sep, 1)\<close>: the text before and after the first \<open>sep\<close>, if there is one\<close>
  "split_once sep [] = (if sep = [] then Some ([], []) else None)"
| "split_once sep (c # s) =
     (if take (length sep) (c # s) = sep then Some ([], drop (length sep) (c # s))
      else map_option (\<lambda>(before, after). (c # before, after)) (split_once sep s))"

fun py_join :: "string \<Rightarrow> string list \<Rightarrow> string" where
  \<comment> \<open>\<open>sep.join(parts)\<close>\<close>
  "py_join sep [] = []"
| "py_join sep [p] = p"
| "py_join sep (p # ps) = p @ sep @ py_join sep ps"

fun is_substring :: "string \<Rightarrow> string \<Rightarrow> bool" where
  \<comment> \<open>\<open>key in s\<close> for strings\<close>
  "is_substring key [] = (key = [])"
| "is_substring key (c # s) = (take (length key) (c # s) = key \<or> is_substring key s)"

subsection \<open>Packing\<close>

datatype manifest_arg = ManifestObj manifest | ManifestDict json

definition dict_update :: "(string \<times> 'v) list \<Rightarrow> (string \<times> 'v) list \<Rightarrow> (string \<times> 'v) list" where
  \<comment> \<open>\<open>d.update(other)\<close>: a key already there keeps its place, a new one goes last\<close>
  "dict_update d other = fold (\<lambda>kv acc. AList.update (fst kv) (snd kv) acc) other d"

definition compute_checksums :: "(string \<Rightarrow> string) \<Rightarrow> (string \<times> string) list \<Rightarrow> (string \<times> string) list" where
  \<comment> \<open>\<open>for path, data in sorted(all_files.items()): checksums[path] = compute_sha256(data)\<close>\<close>
  "compute_checksums sha256 all_files =
     fold (\<lambda>pd acc. AList.update (fst pd) (sha256 (snd pd)) acc) (sort all_files) []"

definition checksum_line :: "string \<times> string \<Rightarrow> string" where
  \<comment> \<open>\<open>f"{hash}  {path}"\<close> for an item \<open>(path, hash)\<close>\<close>
  "checksum_line ph = snd ph @ ''  '' @ fst ph"

definition checksum_lines :: "(string \<Rightarrow> string) \<Rightarrow> (string \<times> string) list \<Rightarrow> string list" where
  "checksum_lines sha256 all_files = map checksum_line (sort (compute_checksums sha256 all_files))"

definition build_files ::
  "(string \<Rightarrow> string) \<Rightarrow> string \<Rightarrow> (string \<times> string) list \<Rightarrow> bool \<Rightarrow> (string \<times> string) list" where
  \<comment> \<open>the dict \<open>all_files\<close> when the archive is about to be written\<close>
  "build_files sha256 manifest_bytes file_map include_checksums =
     (let all_files = dict_update [(''manifest.json'', manifest_bytes)] file_map
      in if include_checksums
         then AList.update ''checksums.sha256''
                (py_join [NL] (checksum_lines sha256 all_files)) all_files
         else all_files)"

definition order_paths :: "string list \<Rightarrow> string list" where
  \<comment> \<open>\<open>sorted_paths\<close>: sorted, then manifest.json moved first and checksums.sha256 last\<close>
  "order_paths paths =
     (let sorted_paths = sort paths;
          sorted_paths =
            (if ''manifest.json'' \<in> set sorted_paths
             then ''manifest.json'' # remove1 ''manifest.json'' sorted_paths
             else sorted_paths);
          sorted_paths =
            (if ''checksums.sha256'' \<in> set sorted_paths
             then remove1 ''checksums.sha256'' sorted_paths @ [''checksums.sha256'']
             else sorted_paths)
      in sorted_paths)"

fun members_of :: "(string \<times> string) list \<Rightarrow> string list \<Rightarrow> archive" where
  \<comment> \<open>\<open>(path, all_files[path])\<close> for each path; the paths are keys of \<open>all_files\<close>\<close>
  "members_of all_files [] = []"
| "members_of all_files (p # ps) =
     (case map_of all_files p of
        Some bs \<Rightarrow> (p, bs) # members_of all_files ps
      | None \<Rightarrow> members_of all_files ps)"

definition manifest_bytes_of :: "(json \<Rightarrow> string) \<Rightarrow> manifest_arg \<Rightarrow> string" where
  "manifest_bytes_of dumps manifest =
     (case manifest of
        ManifestObj m \<Rightarrow> to_json dumps m
      | ManifestDict d \<Rightarrow> dumps d)"

definition pack_members ::
  "(json \<Rightarrow> string) \<Rightarrow> (string \<Rightarrow> string) \<Rightarrow> manifest_arg \<Rightarrow> (string \<times> string) list \<Rightarrow> bool
   \<Rightarrow> archive" where
  \<comment> \<open>the members \<open>pack_stella\<close> writes, in the order it writes them\<close>
  "pack_members dumps sha256 manifest file_map include_checksums =
     (let all_files = build_files sha256 (manifest_bytes_of dumps manifest) file_map
                        include_checksums
      in members_of all_files (order_paths (map fst all_files)))"

text \<open>
  What \<open>pack_stella\<close> does to the file system, in the order of the source.

  \<^item> \<open>output_path.parent.mkdir(parents=True, exist_ok=True)\<close> is \<open>pathlib\<close>'s, the
    parameter \<open>mkdir\<close>: from the file system and the output path, the exception it
    raises, if any, and the file system it leaves, with the directories it made.
  \<^item> \<open>zipfile.ZipFile(output_path, "w", ...)\<close> opens the output path itself for
    writing: the file is created there, or the one there truncated, before any member
    is written. Opening a directory raises.
  \<^item> The members are written with \<open>zf.writestr\<close> into that file and leaving the
    \<open>with\<close> block closes it. Whether the storage takes the bytes is the environment's,
    the parameter \<open>storage\<close>: either every write and the close succeed and the file
    holds the archive, or one of them raises and the file is left with whatever has
    reached it. \<open>pack_stella\<close> has no handler and removes nothing, so the exception
    leaves the function and the file stays.
\<close>

datatype storage =
    Reliable                      \<comment> \<open>every write and the close succeed\<close>
  | Failing error file_content    \<comment> \<open>a write or the close raises; what the file is left holding\<close>

definition zip_open_w :: "filesystem \<Rightarrow> string \<Rightarrow> error + filesystem" where
  \<comment> \<open>\<open>zipfile.ZipFile(path, "w")\<close>: the file exists from here on, empty\<close>
  "zip_open_w fs p =
     (case fs p of
        Some Directory \<Rightarrow> Inl IsADirectoryError
      | _ \<Rightarrow> Inr (fs(p \<mapsto> File (OtherFile []))))"

definition zip_write_close ::
  "storage \<Rightarrow> filesystem \<Rightarrow> string \<Rightarrow> archive \<Rightarrow> error option \<times> filesystem" where
  \<comment> \<open>the \<open>writestr\<close> calls on the open file, and its close\<close>
  "zip_write_close storage fs p members =
     (case storage of
        Reliable \<Rightarrow> (None, fs(p \<mapsto> File (ZipFile members)))
      | Failing e left \<Rightarrow> (Some e, fs(p \<mapsto> File left)))"

text \<open>
  \<open>pack_stella\<close> returns the output path or raises, and leaves the file system changed.
\<close>

definition pack_stella ::
  "(json \<Rightarrow> string) \<Rightarrow> (string \<Rightarrow> string) \<Rightarrow> (filesystem \<Rightarrow> string \<Rightarrow> error option \<times> filesystem)
   \<Rightarrow> storage \<Rightarrow> filesystem \<Rightarrow> string \<Rightarrow> manifest_arg \<Rightarrow> (string \<times> string) list \<Rightarrow> bool
   \<Rightarrow> (error + string) \<times> filesystem" where
  "pack_stella dumps sha256 mkdir storage fs output_path manifest file_map include_checksums =
     (case mkdir fs output_path of
        (Some e, fs1) \<Rightarrow> (Inl e, fs1)
      | (None, fs1) \<Rightarrow>
          (let members = pack_members dumps sha256 manifest file_map include_checksums
           in case zip_open_w fs1 output_path of
                Inl e \<Rightarrow> (Inl e, fs1)
              | Inr fs2 \<Rightarrow>
                  (case zip_write_close storage fs2 output_path members of
                     (Some e, fs3) \<Rightarrow> (Inl e, fs3)
                   | (None, fs3) \<Rightarrow> (Inr output_path, fs3))))"

subsection \<open>Verifying checksums\<close>

text \<open>The body of the loop over the lines of \<open>checksums.sha256\<close>: the errors one line adds.\<close>

definition check_line :: "(string \<Rightarrow> string) \<Rightarrow> archive \<Rightarrow> string \<Rightarrow> error + string list" where
  "check_line sha256 zf line =
     (if line = [] then Inr []
      else case split_once ''  '' line of
             None \<Rightarrow> Inr [''Malformed checksum line: '' @ line]
           | Some (expected_hash, path) \<Rightarrow>
               if path = ''checksums.sha256'' then Inr []
               else if path \<notin> set (namelist zf) then Inr [''Missing file: '' @ path]
               else bind_e (zf_read zf path) (\<lambda>bs.
                      if sha256 bs \<noteq> expected_hash
                      then Inr [''Checksum mismatch for '' @ path]
                      else Inr []))"

fun check_lines :: "(string \<Rightarrow> string) \<Rightarrow> archive \<Rightarrow> string list \<Rightarrow> error + string list" where
  "check_lines sha256 zf [] = Inr []"
| "check_lines sha256 zf (line # rest) =
     bind_e (check_line sha256 zf line) (\<lambda>errs.
     bind_e (check_lines sha256 zf rest) (\<lambda>more. Inr (errs @ more)))"

definition verify_archive :: "(string \<Rightarrow> string) \<Rightarrow> archive \<Rightarrow> error + (bool \<times> string list)" where
  "verify_archive sha256 zf =
     (if ''checksums.sha256'' \<notin> set (namelist zf)
      then Inr (True, [''No checksums.sha256 file found (not an error)''])
      else bind_e (zf_read zf ''checksums.sha256'') (\<lambda>checksum_content.
           bind_e (check_lines sha256 zf (py_split_char NL (py_strip checksum_content)))
             (\<lambda>errors. Inr (errors = [], errors))))"

definition verify_stella_checksums ::
  "(string \<Rightarrow> string) \<Rightarrow> filesystem \<Rightarrow> string \<Rightarrow> error + (bool \<times> string list)" where
  "verify_stella_checksums sha256 fs stella_path =
     bind_e (zf_open fs stella_path) (verify_archive sha256)"

subsection \<open>Validating\<close>

fun py_contains :: "json \<Rightarrow> string \<Rightarrow> error + bool" where
  \<comment> \<open>\<open>key in v\<close>\<close>
  "py_contains (JDict kvs) key = Inr (key \<in> set (map fst kvs))"
| "py_contains (JList xs) key = Inr (JStr key \<in> set xs)"
| "py_contains (JStr s) key = Inr (is_substring key s)"
| "py_contains v key = Inl TypeError"

fun py_getitem :: "json \<Rightarrow> string \<Rightarrow> error + json" where
  \<comment> \<open>\<open>v[key]\<close> for a string \<open>key\<close>\<close>
  "py_getitem (JDict kvs) key = (case map_of kvs key of Some x \<Rightarrow> Inr x | None \<Rightarrow> Inl KeyError)"
| "py_getitem v key = Inl TypeError"

fun py_get :: "json \<Rightarrow> string \<Rightarrow> json \<Rightarrow> error + json" where
  \<comment> \<open>\<open>v.get(key, default)\<close>\<close>
  "py_get (JDict kvs) key dflt = Inr (dict_get kvs key dflt)"
| "py_get v key dflt = Inl AttributeError"

definition format_value :: "(json \<Rightarrow> string) \<Rightarrow> json \<Rightarrow> string" where
  \<comment> \<open>a value inside an f-string: a string as it is, anything else through \<open>str()\<close>,
      which is the parameter \<open>py_str\<close>\<close>
  "format_value py_str v = (case v of JStr s \<Rightarrow> s | _ \<Rightarrow> py_str v)"

definition required_files :: "string \<Rightarrow> string list" where
  "required_files level_dir =
     [level_dir @ ''level.json'', level_dir @ ''render.glb'', level_dir @ ''collision.rlevox'']"

definition missing_files :: "archive \<Rightarrow> string list \<Rightarrow> string list" where
  \<comment> \<open>\<open>for req_file in required_files: if req_file not in zf.namelist(): errors.append(...)\<close>\<close>
  "missing_files zf reqs =
     map (\<lambda>req_file. ''Missing required file: '' @ req_file)
       (filter (\<lambda>req_file. req_file \<notin> set (namelist zf)) reqs)"

fun level_errors :: "(json \<Rightarrow> string) \<Rightarrow> archive \<Rightarrow> json list \<Rightarrow> error + string list" where
  "level_errors py_str zf [] = Inr []"
| "level_errors py_str zf (lvl # rest) =
     bind_e (py_get lvl ''id'' (JStr ''unknown'')) (\<lambda>level_id.
     bind_e (level_errors py_str zf rest) (\<lambda>more.
       Inr (missing_files zf
              (required_files (''levels/'' @ format_value py_str level_id @ ''/'')) @ more)))"

definition levels_errors :: "(json \<Rightarrow> string) \<Rightarrow> archive \<Rightarrow> json \<Rightarrow> error + string list" where
  "levels_errors py_str zf manifest_data =
     bind_e (py_contains manifest_data ''levels'') (\<lambda>has_levels.
       if \<not> has_levels then Inr [''manifest.json missing 'levels' field'']
       else bind_e (py_getitem manifest_data ''levels'') (\<lambda>levels.
              if \<not> truthy levels then Inr [''manifest.json has empty 'levels' array'']
              else bind_e (py_iter levels) (level_errors py_str zf)))"

definition manifest_errors ::
  "(string \<Rightarrow> error + json) \<Rightarrow> (json \<Rightarrow> string) \<Rightarrow> archive \<Rightarrow> error + string list" where
  "manifest_errors loads py_str zf =
     (if ''manifest.json'' \<notin> set (namelist zf)
      then Inr [''Missing required file: manifest.json'']
      else bind_e (zf_read zf ''manifest.json'') (\<lambda>manifest_bytes.
             case loads manifest_bytes of
               Inl (JSONDecodeError msg) \<Rightarrow> Inr [''Invalid JSON in manifest.json: '' @ msg]
             | Inl e \<Rightarrow> Inl e
             | Inr manifest_data \<Rightarrow> levels_errors py_str zf manifest_data))"

definition validate_stella ::
  "(string \<Rightarrow> error + json) \<Rightarrow> (json \<Rightarrow> string) \<Rightarrow> (string \<Rightarrow> string) \<Rightarrow> filesystem \<Rightarrow> string
   \<Rightarrow> error + (bool \<times> string list)" where
  "validate_stella loads py_str sha256 fs stella_path =
     (case fs stella_path of
        None \<Rightarrow> Inr (False, [''File not found: '' @ stella_path])
      | Some Directory \<Rightarrow> Inl IsADirectoryError
      | Some (File (OtherFile bs)) \<Rightarrow> Inr (False, [''Not a valid ZIP file''])
      | Some (File (ZipFile zf)) \<Rightarrow>
          bind_e (manifest_errors loads py_str zf) (\<lambda>errors.
          bind_e (if ''checksums.sha256'' \<in> set (namelist zf)
                  then bind_e (verify_stella_checksums sha256 fs stella_path) (\<lambda>r.
                         Inr (if \<not> fst r then snd r else []))
                  else Inr [])
            (\<lambda>checksum_errors.
               Inr (errors @ checksum_errors = [], errors @ checksum_errors))))"

subsection \<open>What is taken from \<open>hashlib\<close>\<close>

text \<open>
  \<open>hashlib.sha256(data).hexdigest()\<close> is a parameter \<open>sha256\<close> of the model. What the
  proofs use of it: a digest is a non-empty string of hexadecimal digits.
\<close>

definition hex_digest :: "string \<Rightarrow> bool" where
  "hex_digest s \<longleftrightarrow> s \<noteq> [] \<and> list_all (\<lambda>c. c \<in> set ''0123456789abcdef'') s"

section \<open>Grid and world coordinates (\<open>stella/vox_rle.py\<close>)\<close>

text \<open>
  \<open>grid_to_world\<close> and \<open>world_to_grid\<close> compute with numpy's float64. A float64 value
  is the rational number it stands for, and an arithmetic operation returns the exact
  result rounded to a float64: the rounding is the parameter \<open>rnd\<close>. Infinities and NaN
  are outside the model. An array of \<open>N\<close> rows of three is a list of triples; the
  expressions of the source act on each coordinate with the origin's coordinate of the
  same axis.
\<close>

definition to_world :: "(rat \<Rightarrow> rat) \<Rightarrow> rat \<Rightarrow> rat \<Rightarrow> int \<Rightarrow> rat" where
  \<comment> \<open>one coordinate of \<open>origin_arr + (indices + 0.5) * voxel_size\<close>; the integer index is
      converted to float64 first\<close>
  "to_world rnd voxel_size origin_c index =
     rnd (origin_c + rnd (rnd (rnd (of_int index) + 1 / 2) * voxel_size))"

definition to_grid :: "(rat \<Rightarrow> rat) \<Rightarrow> rat \<Rightarrow> rat \<Rightarrow> rat \<Rightarrow> int" where
  \<comment> \<open>one coordinate of \<open>np.floor((positions - origin_arr) / voxel_size).astype(int)\<close>\<close>
  "to_grid rnd voxel_size origin_c position = \<lfloor>rnd (rnd (position - origin_c) / voxel_size)\<rfloor>"

definition grid_to_world ::
  "(rat \<Rightarrow> rat) \<Rightarrow> (int \<times> int \<times> int) list \<Rightarrow> rat \<Rightarrow> rat \<times> rat \<times> rat \<Rightarrow> (rat \<times> rat \<times> rat) list" where
  "grid_to_world rnd indices voxel_size origin =
     (case origin of (origin_x, origin_y, origin_z) \<Rightarrow>
        map (\<lambda>(x, y, z). (to_world rnd voxel_size origin_x x,
                          to_world rnd voxel_size origin_y y,
                          to_world rnd voxel_size origin_z z)) indices)"

definition world_to_grid ::
  "(rat \<Rightarrow> rat) \<Rightarrow> (rat \<times> rat \<times> rat) list \<Rightarrow> rat \<Rightarrow> rat \<times> rat \<times> rat \<Rightarrow> (int \<times> int \<times> int) list" where
  "world_to_grid rnd positions voxel_size origin =
     (case origin of (origin_x, origin_y, origin_z) \<Rightarrow>
        map (\<lambda>(x, y, z). (to_grid rnd voxel_size origin_x x,
                          to_grid rnd voxel_size origin_y y,
                          to_grid rnd voxel_size origin_z z)) positions)"

subsection \<open>Rounding to float64\<close>

text \<open>
  IEEE 754 binary64, round to nearest, ties to even: a number \<open>x\<close> with
  \<open>2^e \<le> |x| < 2^(e+1)\<close> is rounded to the nearest multiple of \<open>2^(e-52)\<close>. The range
  of the exponent is not bounded here, so this is the float64 rounding for results
  whose magnitude is between \<open>2^-1022\<close> and \<open>2^1024\<close>, and for zero.
\<close>

definition round_half_even :: "rat \<Rightarrow> int" where
  "round_half_even q =
     (let n = \<lfloor>q\<rfloor>; r = q - of_int n
      in if r < 1 / 2 then n else if 1 / 2 < r then n + 1 else if even n then n else n + 1)"

fun bit_length :: "nat \<Rightarrow> nat" where
  \<comment> \<open>the number of binary digits of \<open>n\<close>\<close>
  "bit_length n = (if n = 0 then 0 else Suc (bit_length (n div 2)))"

definition exponent :: "rat \<Rightarrow> int" where
  \<comment> \<open>the \<open>e\<close> with \<open>2^e \<le> |x| < 2^(e+1)\<close>, for \<open>x\<close> other than zero\<close>
  "exponent x =
     (if 1 \<le> \<bar>x\<bar> then int (bit_length (nat \<lfloor>\<bar>x\<bar>\<rfloor>)) - 1
      else - int (bit_length (nat (\<lceil>1 / \<bar>x\<bar>\<rceil> - 1))))"

definition round_binary64 :: "rat \<Rightarrow> rat" where
  "round_binary64 x =
     (if x = 0 then 0
      else let ulp = 2 powi (exponent x - 52)
           in of_int (round_half_even (x / ulp)) * ulp)"

declare bit_length.simps [simp del]


section \<open>Run-length encoding of a row\<close>

lemma rle_loop_acc: "rle_loop rest n cv runs = runs @ rle_loop rest n cv []"
proof (induction rest arbitrary: n cv runs)
  case Nil
  then show ?case by simp
next
  case (Cons b rest)
  show ?case
    using Cons.IH [of "n + 1" cv runs] Cons.IH [of 1 "of_bool b" "runs @ [(n, cv)]"]
      Cons.IH [of 1 "of_bool b" "[(n, cv)]"]
    by simp
qed

lemma rle_loop_maximal:
  "0 < n \<Longrightarrow> cv \<le> 1 \<Longrightarrow>
   maximal_runs (rle_loop rest n cv []) (replicate n (cv = 1) @ rest) \<and>
   rle_loop rest n cv [] \<noteq> [] \<and> snd (hd (rle_loop rest n cv [])) = cv"
proof (induction rest arbitrary: n cv)
  case Nil
  then show ?case by (simp add: maximal_runs_def)
next
  case (Cons b rest)
  show ?case
  proof (cases "of_bool b = cv")
    case True
    have "replicate (n + 1) (cv = 1) @ rest = replicate n (cv = 1) @ b # rest"
      using True Cons.prems by (cases b) (auto simp: replicate_append_same)
    then show ?thesis
      using Cons.IH [of "n + 1" cv] Cons.prems True by simp
  next
    case False
    let ?rs = "rle_loop rest 1 (of_bool b) []"
    have ih: "maximal_runs ?rs (replicate 1 ((of_bool b :: nat) = 1) @ rest)"
       "?rs \<noteq> []" "snd (hd ?rs) = of_bool b"
      using Cons.IH [of 1 "of_bool b"] by simp_all
    have eq: "rle_loop (b # rest) n cv [] = (n, cv) # ?rs"
      using False rle_loop_acc [of rest 1 "of_bool b" "[(n, cv)]"] by simp
    have "adjacent_differ ((n, cv) # ?rs)"
      using ih False by (cases ?rs) (auto simp: maximal_runs_def)
    then show ?thesis
      using ih Cons.prems False unfolding eq by (cases b) (auto simp: maximal_runs_def)
  qed
qed

lemma encode_rle_row_maximal: "maximal_runs (encode_rle_row row) row"
proof (cases row)
  case Nil
  then show ?thesis by (simp add: encode_rle_row_def maximal_runs_def)
next
  case (Cons b rest)
  then show ?thesis
    using rle_loop_maximal [of 1 "of_bool b" rest] by (cases b) (simp_all add: encode_rle_row_def)
qed


lemma expand_runs_hd:
  "maximal_runs (r # rs) row \<Longrightarrow> row \<noteq> [] \<and> hd row = (snd r = 1)"
  by (cases r) (auto simp: maximal_runs_def)

lemma takeWhile_expand:
  assumes "maximal_runs (r # rs) row"
  shows "takeWhile (\<lambda>b. b = (snd r = 1)) row = replicate (fst r) (snd r = 1)"
proof (cases rs)
  case Nil
  with assms show ?thesis by (auto simp: maximal_runs_def takeWhile_eq_all_conv)
next
  case (Cons r' rs')
  have "0 < fst r'" "snd r' \<le> 1" "snd r \<le> 1" "snd r \<noteq> snd r'"
    using assms Cons by (auto simp: maximal_runs_def)
  then have "expand_runs rs \<noteq> [] \<and> hd (expand_runs rs) \<noteq> (snd r = 1)"
    using Cons by (cases "fst r'") auto
  then show ?thesis
    using assms by (cases "expand_runs rs") (auto simp: maximal_runs_def takeWhile_append2 takeWhile_tail)
qed

lemma maximal_runs_tail:
  "maximal_runs (r # rs) row \<Longrightarrow> maximal_runs rs (drop (fst r) row)"
  by (cases rs) (auto simp: maximal_runs_def)

lemma maximal_runs_unique:
  "maximal_runs rs row \<Longrightarrow> maximal_runs rs' row \<Longrightarrow> rs = rs'"
proof (induction rs arbitrary: rs' row)
  case Nil
  then show ?case by (cases rs'; cases "fst (hd rs')") (auto simp: maximal_runs_def)
next
  case (Cons r rs)
  from Cons.prems obtain r' rs'' where rs': "rs' = r' # rs''"
    by (cases rs'; cases "fst r") (auto simp: maximal_runs_def)
  have hd: "(snd r = 1) = (snd r' = 1)"
    using expand_runs_hd [OF Cons.prems(1)] expand_runs_hd [of r' rs'' row] Cons.prems(2) rs' by simp
  have "replicate (fst r) (snd r = 1) = replicate (fst r') (snd r' = 1)"
    using takeWhile_expand [OF Cons.prems(1)] takeWhile_expand [of r' rs'' row] Cons.prems(2) rs' hd
    by simp
  then have "fst r = fst r'"
    by (metis length_replicate)
  moreover have "snd r = snd r'"
    using hd Cons.prems rs' by (auto simp: maximal_runs_def)
  ultimately have "r = r'" by (simp add: prod_eq_iff)
  moreover have "rs = rs''"
    using Cons.IH [of "drop (fst r) row" rs''] maximal_runs_tail [OF Cons.prems(1)]
      maximal_runs_tail [of r' rs'' row] Cons.prems(2) rs' \<open>r = r'\<close> by simp
  ultimately show ?case using rs' by simp
qed

lemma split_run_small: "0 < n \<Longrightarrow> n \<le> 65535 \<Longrightarrow> split_run n v = [(n, v)]"
  by (simp add: split_run.simps [of n] split_run.simps [of 0] min_absorb1)

lemma split_run_props:
  "(\<forall>r \<in> set (split_run n v). snd r = v \<and> 0 < fst r \<and> fst r \<le> 65535) \<and>
   sum_list (map fst (split_run n v)) = n"
proof (induction n v rule: split_run.induct)
  case (1 remaining v)
  show ?case
  proof (cases "remaining > 0")
    case True
    then show ?thesis
      using 1 by (subst (1 2) split_run.simps) auto
  next
    case False
    then show ?thesis by (simp add: split_run.simps)
  qed
qed

lemma records_small:
  "\<forall>r \<in> set rs. 0 < fst r \<and> fst r \<le> 65535 \<Longrightarrow>
   concat (map (\<lambda>(run_length, v). split_run run_length v) rs) = rs"
  by (induction rs) (auto simp: split_run_small)

lemma encode_replicate: "0 < n \<Longrightarrow> encode_rle_row (replicate n b) = [(n, of_bool b)]"
proof -
  assume "0 < n"
  then have "maximal_runs [(n, of_bool b)] (replicate n b)"
    by (cases b) (auto simp: maximal_runs_def)
  then show ?thesis
    using maximal_runs_unique [OF encode_rle_row_maximal] by blast
qed

text \<open>
  Claim C8 (run minimality and splitting). Let \<open>rs\<close> be the maximal equal-value runs of
  a row. The records written for the row are the runs in order, each run \<open>(n, v)\<close>
  replaced by the records of \<open>split_run n v\<close>; those records all carry the value \<open>v\<close>,
  each has a length between 1 and 65535, and their lengths sum to \<open>n\<close>. When every run is
  at most 65535 cells long the records are exactly the runs, so a row of \<open>k\<close> maximal runs
  gives \<open>k\<close> records. An all-true row of 200000 cells gives 4 records.
\<close>

theorem run_minimality_and_splitting:
  assumes "maximal_runs rs row"
  shows "row_records row = concat (map (\<lambda>(n, v). split_run n v) rs) \<and>
         (\<forall>(n, v) \<in> set rs.
            (\<forall>r \<in> set (split_run n v). snd r = v \<and> 0 < fst r \<and> fst r \<le> 65535) \<and>
            sum_list (map fst (split_run n v)) = n) \<and>
         ((\<forall>r \<in> set rs. fst r \<le> 65535) \<longrightarrow>
            row_records row = rs \<and> length (row_records row) = length rs) \<and>
         length (row_records (replicate 200000 True)) = 4"
proof -
  have enc: "encode_rle_row row = rs"
    using maximal_runs_unique [OF encode_rle_row_maximal assms] .
  have split: "row_records row = concat (map (\<lambda>(n, v). split_run n v) rs)"
    by (simp add: row_records_def enc)
  have pos: "\<forall>r \<in> set rs. 0 < fst r"
    using assms by (simp add: maximal_runs_def)
  have small: "(\<forall>r \<in> set rs. fst r \<le> 65535) \<longrightarrow> row_records row = rs"
    using pos records_small [of rs] split by auto
  have big: "length (row_records (replicate 200000 True)) = 4"
    by (simp add: row_records_def encode_replicate split_run.simps)
  show ?thesis
    using split small big split_run_props by auto
qed

theorem run_minimality_and_splitting_witness:
  "maximal_runs [(2, 1), (1, 0)] [True, True, False] \<and>
   row_records [True, True, False] = [(2, 1), (1, 0)] \<and>
   length (row_records [True, True, False]) = 2"
proof -
  have h: "maximal_runs [(2, 1), (1, 0)] [True, True, False]"
    by (simp add: maximal_runs_def numeral_2_eq_2)
  show ?thesis
    using h run_minimality_and_splitting [OF h] by (simp add: split_run_small)
qed

section \<open>Decoding a row whose runs overshoot\<close>

text \<open>
  The decoder clamps the end of every run to the row (\<open>end_x = min(x + run_length, dim_x)\<close>),
  so the row loop always ends with \<open>x = dim_x\<close> and the test \<open>x != dim_x\<close> after it
  never raises.
\<close>

lemma read_row_never_mismatch:
  "x \<le> dim_x \<Longrightarrow> read_row dim_x dim_y dim_z y z x bs cs \<noteq> Inl (RowLengthMismatch z' y')"
proof (induction dim_x dim_y dim_z y z x bs cs rule: read_row.induct)
  case (1 dim_x dim_y dim_z y z x bs cs)
  show ?case
  proof (cases "x < dim_x")
    case True
    then show ?thesis
      using 1 by (subst read_row.simps) (auto simp: Let_def)
  next
    case False
    then show ?thesis using 1 by (subst read_row.simps) auto
  qed
qed

lemma read_row_overshoot: "read_row 1 1 1 0 0 0 [2, 0, 1, 0] [False] = Inr ([], [True])"
  apply (subst read_row.simps)
  apply (simp add: set_slice_def cell_index_def)
  apply (subst read_row.simps)
  apply simp
  done


lemma read_payload_overshoot: "read_payload 1 1 1 [2, 0, 1, 0] = Inr \<lparr>shape = [1, 1, 1], cells = [True]\<rparr>"
  using read_row_overshoot by (simp add: read_payload_def np_zeros_def bind_e_def)

text \<open>
  Claim C2 (overshooting rows are rejected) at a concrete file: a version-1 header of 64
  bytes for a grid of shape \<open>(1, 1, 1)\<close>, then the single run record \<open>(2, 1, 0)\<close>. The
  run is two cells long in a row of one cell. The decoder returns a grid instead of
  raising the row-length error.
\<close>

theorem overshoot_row_accepted:
  "read_rlevox (\<lambda>bs. bs)
     [0x53, 0x54, 0x56, 0x58, 1, 0, 64, 0,
      1, 0, 0, 0, 1, 0, 0, 0, 1, 0, 0, 0,
      0, 0, 0x80, 0x3F, 0, 0, 0, 0, 0, 0, 0, 0, 0, 0, 0, 0,
      0x52, 0x4C, 0x45, 0x31, 0, 0, 0, 0,
      0, 0, 0, 0, 0, 0, 0, 0, 0, 0, 0, 0, 0, 0, 0, 0, 0, 0, 0, 0,
      2, 0, 1, 0]
   = Inr (\<lparr>shape = [1, 1, 1], cells = [True]\<rparr>,
          [0, 0, 0x80, 0x3F], ([0, 0, 0, 0], [0, 0, 0, 0], [0, 0, 0, 0]))"
  using read_payload_overshoot
  by (simp add: read_rlevox_def MAGIC_def ENCODING_def VERSION_def check_e_def bind_e_def
      unpack_H_def unpack_I_def unpack_float_def)


section \<open>The codec round trip\<close>

subsection \<open>Run records as bytes, and what the decoder paints\<close>

lemma unat_byte_of_nat: "n < 256 \<Longrightarrow> unat (of_nat n :: byte) = n"
  by (simp add: unat_of_nat)

lemma pack_record_ok:
  "fst r < 65536 \<Longrightarrow> snd r < 256 \<Longrightarrow> pack_record r = Inr (record_bytes r)"
  by (simp add: pack_record_def pack_H_def pack_B_def record_bytes_def)

lemma write_all_append:
  "write_all ws = Inr a \<Longrightarrow> write_all ws' = Inr b \<Longrightarrow> write_all (ws @ ws') = Inr (a @ b)"
proof (induction ws arbitrary: a)
  case Nil
  then show ?case by simp
next
  case (Cons w ws)
  then show ?case by (cases w) (auto split: sum.splits)
qed

lemma write_all_records:
  "\<forall>r \<in> set rs. fst r < 65536 \<and> snd r < 256 \<Longrightarrow>
   write_all (map pack_record rs) = Inr (concat (map record_bytes rs))"
  by (induction rs) (auto simp: pack_record_ok)

lemma fold_update_nth:
  "j < length cs \<Longrightarrow>
   fold (\<lambda>i acc. acc[f i := True]) xs cs ! j = (cs ! j \<or> (\<exists>i \<in> set xs. j = f i))"
proof (induction xs arbitrary: cs)
  case Nil
  then show ?case by simp
next
  case (Cons a xs)
  have step: "cs[f a := True] ! j = (cs ! j \<or> j = f a)"
    using Cons.prems by (cases "j = f a") (simp_all add: nth_list_update)
  have "fold (\<lambda>i acc. acc[f i := True]) xs (cs[f a := True]) ! j =
        (cs[f a := True] ! j \<or> (\<exists>i \<in> set xs. j = f i))"
    using Cons.IH [of "cs[f a := True]"] Cons.prems by simp
  then show ?case using step by auto
qed

lemma fold_update_length: "length (fold (\<lambda>i acc. acc[f i := True]) xs cs) = length cs"
  by (induction xs arbitrary: cs) auto

lemma set_slice_length: "length (set_slice dim_y dim_z cs x e y z) = length cs"
  by (simp add: set_slice_def fold_update_length)

lemma set_slice_nth:
  "j < length cs \<Longrightarrow>
   set_slice dim_y dim_z cs x e y z ! j =
     (cs ! j \<or> (\<exists>i. x \<le> i \<and> i < e \<and> j = cell_index dim_y dim_z i y z))"
  by (auto simp: set_slice_def fold_update_nth)

lemma paint_runs_length: "length (paint_runs dim_y dim_z y z x rs cs) = length cs"
  by (induction rs arbitrary: x cs) (auto simp: set_slice_length)

lemma expand_runs_append: "expand_runs (xs @ ys) = expand_runs xs @ expand_runs ys"
  by (induction xs) auto

lemma paint_runs_nth:
  "j < length cs \<Longrightarrow> \<forall>r \<in> set rs. snd r \<le> 1 \<Longrightarrow>
   paint_runs dim_y dim_z y z x rs cs ! j =
     (cs ! j \<or> (\<exists>i < length (expand_runs rs).
                   expand_runs rs ! i \<and> j = cell_index dim_y dim_z (x + i) y z))"
proof (induction rs arbitrary: x cs)
  case Nil
  then show ?case by simp
next
  case (Cons r rs)
  let ?n = "fst r"
  let ?cs = "if snd r = 1 then set_slice dim_y dim_z cs x (x + ?n) y z else cs"
  have len: "j < length ?cs" using Cons.prems by (simp add: set_slice_length)
  have ih: "paint_runs dim_y dim_z y z (x + ?n) rs ?cs ! j =
     (?cs ! j \<or> (\<exists>i < length (expand_runs rs).
                   expand_runs rs ! i \<and> j = cell_index dim_y dim_z (x + ?n + i) y z))"
    using Cons.IH [OF len, of "x + ?n"] Cons.prems by simp
  have hd: "?cs ! j = (cs ! j \<or> (\<exists>i < ?n. (snd r = 1) \<and> j = cell_index dim_y dim_z (x + i) y z))"
  proof (cases "snd r = 1")
    case True
    have "(\<exists>i. x \<le> i \<and> i < x + ?n \<and> j = cell_index dim_y dim_z i y z) =
          (\<exists>i < ?n. j = cell_index dim_y dim_z (x + i) y z)"
      by (metis add_diff_inverse_nat less_diff_conv2 not_less le_add1 nat_add_left_cancel_less)
    then show ?thesis using True Cons.prems by (simp add: set_slice_nth)
  next
    case False
    then show ?thesis by simp
  qed
  have split: "(\<exists>i < length (expand_runs (r # rs)).
                   expand_runs (r # rs) ! i \<and> j = cell_index dim_y dim_z (x + i) y z) =
     ((\<exists>i < ?n. (snd r = 1) \<and> j = cell_index dim_y dim_z (x + i) y z) \<or>
      (\<exists>i < length (expand_runs rs).
                   expand_runs rs ! i \<and> j = cell_index dim_y dim_z (x + ?n + i) y z))"
    (is "?L = (?A \<or> ?B)")
  proof
    assume ?L
    then obtain i where i: "i < length (expand_runs (r # rs))" "expand_runs (r # rs) ! i"
      "j = cell_index dim_y dim_z (x + i) y z" by blast
    show "?A \<or> ?B"
    proof (cases "i < ?n")
      case True
      then show ?thesis using i by (auto simp: nth_append)
    next
      case False
      then have "i - ?n < length (expand_runs rs)" "expand_runs rs ! (i - ?n)"
        "x + ?n + (i - ?n) = x + i"
        using i by (auto simp: nth_append)
      then show ?thesis using i(3) by metis
    qed
  next
    assume "?A \<or> ?B"
    then show ?L
    proof
      assume ?A
      then obtain i where "i < ?n" "snd r = 1" "j = cell_index dim_y dim_z (x + i) y z" by blast
      then show ?L by (intro exI [of _ i]) (auto simp: nth_append)
    next
      assume ?B
      then obtain i where "i < length (expand_runs rs)" "expand_runs rs ! i"
        "j = cell_index dim_y dim_z (x + ?n + i) y z" by blast
      then show ?L by (intro exI [of _ "?n + i"]) (auto simp: nth_append add.assoc)
    qed
  qed
  show ?case
    unfolding paint_runs.simps ih hd split by blast
qed

subsection \<open>Decoding the records of one row\<close>

lemma record_length_decode:
  "n < 65536 \<Longrightarrow>
   unat (of_nat (n mod 256) :: byte) + 256 * unat (of_nat (n div 256) :: byte) = n"
  by (simp add: unat_of_nat)

lemma read_row_records:
  assumes "\<forall>r \<in> set rs. 0 < fst r \<and> fst r \<le> 65535 \<and> snd r \<le> 1"
    and "x + length (expand_runs rs) = dim_x"
  shows "read_row dim_x dim_y dim_z y z x (concat (map record_bytes rs) @ rest) cs =
         Inr (rest, paint_runs dim_y dim_z y z x rs cs)"
  using assms
proof (induction rs arbitrary: x cs)
  case Nil
  then show ?case by (subst read_row.simps) simp
next
  case (Cons r rs)
  let ?n = "fst r"
  have n: "0 < ?n" "?n < 65536" "snd r \<le> 1" using Cons.prems(1) by auto
  have x: "x < dim_x" "min (x + ?n) dim_x = x + ?n"
    "(x + ?n) + length (expand_runs rs) = dim_x"
    using Cons.prems(2) n by auto
  have v: "unat (of_nat (snd r) :: byte) = snd r"
    using n by (simp add: unat_of_nat)
  have ih: "read_row dim_x dim_y dim_z y z (x + ?n) (concat (map record_bytes rs) @ rest)
              (if snd r = 1 then set_slice dim_y dim_z cs x (x + ?n) y z else cs) =
            Inr (rest, paint_runs dim_y dim_z y z (x + ?n) rs
              (if snd r = 1 then set_slice dim_y dim_z cs x (x + ?n) y z else cs))"
    using Cons.IH [OF _ x(3)] Cons.prems(1) by simp
  show ?case
    apply (subst read_row.simps)
    using x n v ih record_length_decode [of ?n]
    apply (simp add: record_bytes_def Let_def)
    done
qed

lemma expand_split_run: "expand_runs (split_run n v) = replicate n (v = 1)"
proof (induction n v rule: split_run.induct)
  case (1 remaining v)
  show ?case
  proof (cases "remaining > 0")
    case True
    have "replicate (min remaining 65535) (v = 1) @
          replicate (remaining - min remaining 65535) (v = 1) = replicate remaining (v = 1)"
      by (simp add: replicate_add [symmetric])
    then show ?thesis
      using 1 True by (subst split_run.simps) simp
  next
    case False
    then show ?thesis by (simp add: split_run.simps)
  qed
qed

lemma expand_concat_split:
  "expand_runs (concat (map (\<lambda>(n, v). split_run n v) rs)) = expand_runs rs"
  by (induction rs) (auto simp: expand_runs_append expand_split_run)

lemma expand_row_records: "expand_runs (row_records row) = row"
  using encode_rle_row_maximal [of row]
  by (simp add: row_records_def expand_concat_split maximal_runs_def)

lemma row_records_valid:
  "\<forall>r \<in> set (row_records row). 0 < fst r \<and> fst r \<le> 65535 \<and> snd r \<le> 1"
proof -
  have "\<forall>r \<in> set (encode_rle_row row). snd r \<le> 1"
    using encode_rle_row_maximal [of row] by (simp add: maximal_runs_def)
  then show ?thesis
    using split_run_props by (fastforce simp: row_records_def)
qed

subsection \<open>Decoding all rows\<close>

lemma painted_trans:
  "painted cs cs' P \<Longrightarrow> painted cs' cs'' Q \<Longrightarrow> painted cs cs'' (\<lambda>j. P j \<or> Q j)"
  by (auto simp: painted_def)

lemma painted_refl: "painted cs cs (\<lambda>j. False)"
  by (simp add: painted_def)

lemma read_row_encoded:
  "\<exists>cs'. read_row dim_x dim_y dim_z y z 0
            (concat (map record_bytes (row_records (grid_row dim_x dim_y dim_z g y z))) @ rest) cs
          = Inr (rest, cs') \<and>
          painted cs cs' (\<lambda>j. \<exists>i < dim_x. g ! j \<and> j = cell_index dim_y dim_z i y z)"
proof -
  let ?row = "grid_row dim_x dim_y dim_z g y z"
  let ?rs = "row_records ?row"
  have len: "0 + length (expand_runs ?rs) = dim_x"
    by (simp add: expand_row_records grid_row_def)
  have rd: "read_row dim_x dim_y dim_z y z 0 (concat (map record_bytes ?rs) @ rest) cs =
            Inr (rest, paint_runs dim_y dim_z y z 0 ?rs cs)"
    using read_row_records [OF row_records_valid len] .
  have v: "\<forall>r \<in> set ?rs. snd r \<le> 1"
    using row_records_valid by blast
  have "painted cs (paint_runs dim_y dim_z y z 0 ?rs cs)
          (\<lambda>j. \<exists>i < dim_x. g ! j \<and> j = cell_index dim_y dim_z i y z)"
    unfolding painted_def
  proof (intro conjI allI impI)
    show "length (paint_runs dim_y dim_z y z 0 ?rs cs) = length cs"
      by (rule paint_runs_length)
  next
    fix j assume j: "j < length cs"
    have "paint_runs dim_y dim_z y z 0 ?rs cs ! j =
          (cs ! j \<or> (\<exists>i < length ?row. ?row ! i \<and> j = cell_index dim_y dim_z (0 + i) y z))"
      using paint_runs_nth [OF j v, of dim_y dim_z y z 0] by (simp add: expand_row_records)
    also have "\<dots> = (cs ! j \<or> (\<exists>i < dim_x. g ! j \<and> j = cell_index dim_y dim_z i y z))"
      by (auto simp: grid_row_def)
    finally show "paint_runs dim_y dim_z y z 0 ?rs cs ! j =
          (cs ! j \<or> (\<exists>i < dim_x. g ! j \<and> j = cell_index dim_y dim_z i y z))" .
  qed
  with rd show ?thesis by blast
qed

lemma read_ys_encoded:
  "\<exists>cs'. read_ys dim_x dim_y dim_z z ys (rows_bytes dim_x dim_y dim_z g z ys @ rest) cs
          = Inr (rest, cs') \<and>
          painted cs cs'
            (\<lambda>j. \<exists>y \<in> set ys. \<exists>i < dim_x. g ! j \<and> j = cell_index dim_y dim_z i y z)"
proof (induction ys arbitrary: cs)
  case Nil
  then show ?case by (simp add: rows_bytes_def painted_def)
next
  case (Cons y ys)
  have bytes: "rows_bytes dim_x dim_y dim_z g z (y # ys) @ rest =
    concat (map record_bytes (row_records (grid_row dim_x dim_y dim_z g y z))) @
    (rows_bytes dim_x dim_y dim_z g z ys @ rest)"
    by (simp add: rows_bytes_def)
  obtain cs1 where r1: "read_row dim_x dim_y dim_z y z 0
       (rows_bytes dim_x dim_y dim_z g z (y # ys) @ rest) cs =
       Inr (rows_bytes dim_x dim_y dim_z g z ys @ rest, cs1)"
    and p1: "painted cs cs1 (\<lambda>j. \<exists>i < dim_x. g ! j \<and> j = cell_index dim_y dim_z i y z)"
    unfolding bytes using read_row_encoded by blast
  obtain cs2 where r2: "read_ys dim_x dim_y dim_z z ys
       (rows_bytes dim_x dim_y dim_z g z ys @ rest) cs1 = Inr (rest, cs2)"
    and p2: "painted cs1 cs2
       (\<lambda>j. \<exists>y \<in> set ys. \<exists>i < dim_x. g ! j \<and> j = cell_index dim_y dim_z i y z)"
    using Cons.IH by blast
  have "painted cs cs2
       (\<lambda>j. \<exists>y' \<in> set (y # ys). \<exists>i < dim_x. g ! j \<and> j = cell_index dim_y dim_z i y' z)"
    using painted_trans [OF p1 p2] by (auto simp: painted_def)
  moreover have "read_ys dim_x dim_y dim_z z (y # ys)
       (rows_bytes dim_x dim_y dim_z g z (y # ys) @ rest) cs = Inr (rest, cs2)"
    using r1 r2 by simp
  ultimately show ?case by blast
qed

lemma read_zs_encoded:
  "\<exists>cs'. read_zs dim_x dim_y dim_z zs (planes_bytes dim_x dim_y dim_z g zs @ rest) cs
          = Inr (rest, cs') \<and>
          painted cs cs'
            (\<lambda>j. \<exists>z \<in> set zs. \<exists>y < dim_y. \<exists>i < dim_x.
                    g ! j \<and> j = cell_index dim_y dim_z i y z)"
proof (induction zs arbitrary: cs)
  case Nil
  then show ?case by (simp add: planes_bytes_def painted_def)
next
  case (Cons z zs)
  have bytes: "planes_bytes dim_x dim_y dim_z g (z # zs) @ rest =
    rows_bytes dim_x dim_y dim_z g z [0..<dim_y] @ (planes_bytes dim_x dim_y dim_z g zs @ rest)"
    by (simp add: planes_bytes_def)
  obtain cs1 where r1: "read_ys dim_x dim_y dim_z z [0..<dim_y]
       (planes_bytes dim_x dim_y dim_z g (z # zs) @ rest) cs =
       Inr (planes_bytes dim_x dim_y dim_z g zs @ rest, cs1)"
    and p1: "painted cs cs1
       (\<lambda>j. \<exists>y \<in> set [0..<dim_y]. \<exists>i < dim_x. g ! j \<and> j = cell_index dim_y dim_z i y z)"
    unfolding bytes using read_ys_encoded by blast
  obtain cs2 where r2: "read_zs dim_x dim_y dim_z zs
       (planes_bytes dim_x dim_y dim_z g zs @ rest) cs1 = Inr (rest, cs2)"
    and p2: "painted cs1 cs2
       (\<lambda>j. \<exists>z \<in> set zs. \<exists>y < dim_y. \<exists>i < dim_x. g ! j \<and> j = cell_index dim_y dim_z i y z)"
    using Cons.IH by blast
  have "painted cs cs2
       (\<lambda>j. \<exists>z' \<in> set (z # zs). \<exists>y < dim_y. \<exists>i < dim_x.
               g ! j \<and> j = cell_index dim_y dim_z i y z')"
    using painted_trans [OF p1 p2] by (auto simp: painted_def)
  moreover have "read_zs dim_x dim_y dim_z (z # zs)
       (planes_bytes dim_x dim_y dim_z g (z # zs) @ rest) cs = Inr (rest, cs2)"
    using r1 r2 by simp
  ultimately show ?case by blast
qed

subsection \<open>The payload\<close>

lemma cell_index_onto:
  assumes "j < dim_x * dim_y * dim_z"
  shows "\<exists>z < dim_z. \<exists>y < dim_y. \<exists>i < dim_x. j = cell_index dim_y dim_z i y z"
proof -
  have "0 < dim_x * dim_y * dim_z"
    using assms by linarith
  then have pos: "0 < dim_z" "0 < dim_y" by simp_all
  let ?q = "j div dim_z"
  have q: "?q < dim_x * dim_y"
    by (rule less_mult_imp_div_less) (use assms in simp)
  have x: "?q div dim_y < dim_x"
    by (rule less_mult_imp_div_less) (use q in simp)
  have y: "?q mod dim_y < dim_y" and z: "j mod dim_z < dim_z"
    using pos by simp_all
  have "?q div dim_y * dim_y + ?q mod dim_y = ?q"
    by (rule div_mult_mod_eq)
  then have "(?q div dim_y * dim_y + ?q mod dim_y) * dim_z + j mod dim_z = j"
    by (simp only: div_mult_mod_eq)
  then have "j = cell_index dim_y dim_z (?q div dim_y) (?q mod dim_y) (j mod dim_z)"
    by (simp only: cell_index_def)
  with x y z show ?thesis by blast
qed

lemma read_payload_encoded:
  assumes "length g = dim_x * dim_y * dim_z"
  shows "read_payload dim_x dim_y dim_z (planes_bytes dim_x dim_y dim_z g [0..<dim_z]) =
         Inr \<lparr>shape = [dim_x, dim_y, dim_z], cells = g\<rparr>"
proof -
  let ?zero = "replicate (dim_x * dim_y * dim_z) False"
  obtain cs' where rd: "read_zs dim_x dim_y dim_z [0..<dim_z]
        (planes_bytes dim_x dim_y dim_z g [0..<dim_z] @ []) ?zero = Inr ([], cs')"
    and p: "painted ?zero cs'
        (\<lambda>j. \<exists>z \<in> set [0..<dim_z]. \<exists>y < dim_y. \<exists>i < dim_x.
                g ! j \<and> j = cell_index dim_y dim_z i y z)"
    using read_zs_encoded by blast
  have "cs' = g"
  proof (rule nth_equalityI)
    show "length cs' = length g" using p assms by (simp add: painted_def)
  next
    fix j assume "j < length cs'"
    then have j: "j < dim_x * dim_y * dim_z" using p by (simp add: painted_def)
    then have "cs' ! j = (\<exists>z \<in> set [0..<dim_z]. \<exists>y < dim_y. \<exists>i < dim_x.
                g ! j \<and> j = cell_index dim_y dim_z i y z)"
      using p by (simp add: painted_def)
    also have "\<dots> = g ! j"
    proof -
      obtain z y i where "z < dim_z" "y < dim_y" "i < dim_x" "j = cell_index dim_y dim_z i y z"
        using cell_index_onto [OF j] by blast
      then have "\<exists>z \<in> set [0..<dim_z]. \<exists>y < dim_y. \<exists>i < dim_x.
                   j = cell_index dim_y dim_z i y z"
        by (metis atLeast0LessThan lessThan_iff set_upt)
      then show ?thesis by blast
    qed
    finally show "cs' ! j = g ! j" .
  qed
  then show ?thesis
    using rd by (simp add: read_payload_def np_zeros_def bind_e_def)
qed

lemma concat_map_concat_list:
  "concat (map f (concat xss)) = concat (map (\<lambda>xs. concat (map f xs)) xss)"
  by (induction xss) auto

lemma grid_records_bytes:
  "concat (map record_bytes (grid_records dim_x dim_y dim_z g)) =
   planes_bytes dim_x dim_y dim_z g [0..<dim_z]"
  by (simp add: grid_records_def planes_bytes_def rows_bytes_def concat_map_concat_list comp_def)

lemma grid_records_valid:
  "\<forall>r \<in> set (grid_records dim_x dim_y dim_z g). fst r < 65536 \<and> snd r < 256"
proof
  fix r assume "r \<in> set (grid_records dim_x dim_y dim_z g)"
  then obtain y z where "r \<in> set (row_records (grid_row dim_x dim_y dim_z g y z))"
    by (auto simp: grid_records_def)
  then have "0 < fst r \<and> fst r \<le> 65535 \<and> snd r \<le> 1"
    using row_records_valid by blast
  then show "fst r < 65536 \<and> snd r < 256" by simp
qed

lemma write_payload_ok:
  "write_all (map pack_record (grid_records dim_x dim_y dim_z g)) =
   Inr (planes_bytes dim_x dim_y dim_z g [0..<dim_z])"
  using write_all_records [OF grid_records_valid] by (simp add: grid_records_bytes)

subsection \<open>The header\<close>

lemma base256_digits:
  fixes n :: nat
  shows "n mod 256 + 256 * (n div 256 mod 256) + 65536 * (n div 65536 mod 256)
         + 16777216 * (n div 16777216) = n"
proof -
  define q1 where "q1 = n div 256"
  define q2 where "q2 = q1 div 256"
  define q3 where "q3 = q2 div 256"
  have d2: "n div 65536 = q2"
    unfolding q2_def q1_def by (simp add: div_mult2_eq [symmetric])
  have d3: "n div 16777216 = q3"
    unfolding q3_def q2_def q1_def by (simp add: div_mult2_eq [symmetric])
  have e1: "n = n mod 256 + 256 * q1" unfolding q1_def by simp
  have e2: "q1 = q1 mod 256 + 256 * q2" unfolding q2_def by simp
  have e3: "q2 = q2 mod 256 + 256 * q3" unfolding q3_def by simp
  have "n mod 256 + 256 * (q1 mod 256) + 65536 * (q2 mod 256) + 16777216 * q3 = n"
    using e1 e2 e3 by linarith
  then show ?thesis
    unfolding d2 d3 by (simp only: q1_def)
qed


lemma unpack_I_bytes:
  assumes "n < 4294967296"
  shows "unpack_I [of_nat (n mod 256), of_nat (n div 256 mod 256),
                   of_nat (n div 65536 mod 256), of_nat (n div 16777216)] = Inr n"
proof -
  have "n < 256 * 16777216" using assms by simp
  then have hi: "n div 16777216 < 256" by (rule less_mult_imp_div_less)
  have u: "unat (of_nat (n mod 256) :: byte) = n mod 256"
    "unat (of_nat (n div 256 mod 256) :: byte) = n div 256 mod 256"
    "unat (of_nat (n div 65536 mod 256) :: byte) = n div 65536 mod 256"
    "unat (of_nat (n div 16777216) :: byte) = n div 16777216"
    using hi by (simp_all add: unat_of_nat)
  show ?thesis
    unfolding unpack_I_def list.case u using base256_digits [of n] by simp
qed

lemma four_bytes: "length (bs :: byte list) = 4 \<Longrightarrow> \<exists>a b c d. bs = [a, b, c, d]"
  by (auto simp: length_Suc_conv eval_nat_numeral)


lemma write_header_bytes:
  assumes "dim_x < 4294967296" "dim_y < 4294967296" "dim_z < 4294967296"
    and "pack_f voxel_size = Inr [v0, v1, v2, v3]"
    and "pack_f origin_x = Inr [a0, a1, a2, a3]"
    and "pack_f origin_y = Inr [b0, b1, b2, b3]"
    and "pack_f origin_z = Inr [c0, c1, c2, c3]"
  shows "write_header pack_f dim_x dim_y dim_z voxel_size (origin_x, origin_y, origin_z) =
    Inr ([0x53, 0x54, 0x56, 0x58, 1, 0, 64, 0,
          of_nat (dim_x mod 256), of_nat (dim_x div 256 mod 256),
          of_nat (dim_x div 65536 mod 256), of_nat (dim_x div 16777216),
          of_nat (dim_y mod 256), of_nat (dim_y div 256 mod 256),
          of_nat (dim_y div 65536 mod 256), of_nat (dim_y div 16777216),
          of_nat (dim_z mod 256), of_nat (dim_z div 256 mod 256),
          of_nat (dim_z div 65536 mod 256), of_nat (dim_z div 16777216),
          v0, v1, v2, v3, a0, a1, a2, a3, b0, b1, b2, b3, c0, c1, c2, c3,
          0x52, 0x4C, 0x45, 0x31, 0, 0, 0, 0] @ replicate 20 0)"
  using assms
  by (simp add: write_header_def pack_H_def pack_I_def VERSION_def HEADER_SIZE_def MAGIC_def
      ENCODING_def)

lemma read_rlevox_header:
  assumes "unpack_I [x0, x1, x2, x3] = Inr dim_x"
    and "unpack_I [y0, y1, y2, y3] = Inr dim_y"
    and "unpack_I [z0, z1, z2, z3] = Inr dim_z"
  shows "read_rlevox unpack_f
     ([0x53, 0x54, 0x56, 0x58, 1, 0, 64, 0,
       x0, x1, x2, x3, y0, y1, y2, y3, z0, z1, z2, z3,
       v0, v1, v2, v3, a0, a1, a2, a3, b0, b1, b2, b3, c0, c1, c2, c3,
       0x52, 0x4C, 0x45, 0x31, 0, 0, 0, 0] @ replicate 20 0 @ payload) =
     bind_e (read_payload dim_x dim_y dim_z payload)
       (\<lambda>grid. Inr (grid, unpack_f [v0, v1, v2, v3],
          (unpack_f [a0, a1, a2, a3], unpack_f [b0, b1, b2, b3], unpack_f [c0, c1, c2, c3])))"
proof -
  have r: "unpack_I [0, 0, 0, 0] = Inr 0"
    by (simp add: unpack_I_def)
  show ?thesis
    unfolding read_rlevox_def
    by (simp add: MAGIC_def ENCODING_def VERSION_def check_e_def unpack_H_def unpack_float_def
        assms r bind_e_def)
qed

subsection \<open>Encoding, then decoding\<close>

lemma round_trip_bounded:
  assumes "shape grid = [dim_x, dim_y, dim_z]"
    and "length (cells grid) = dim_x * dim_y * dim_z"
    and "dim_x < 4294967296" and "dim_y < 4294967296" and "dim_z < 4294967296"
    and "pack_f voxel_size = Inr bv" and "length bv = 4"
    and "pack_f origin_x = Inr bx" and "length bx = 4"
    and "pack_f origin_y = Inr b_oy" and "length b_oy = 4"
    and "pack_f origin_z = Inr bz" and "length bz = 4"
  shows "\<exists>file. write_rlevox pack_f grid voxel_size (origin_x, origin_y, origin_z) = Inr file \<and>
           read_rlevox unpack_f file =
             Inr (grid, unpack_f bv, (unpack_f bx, unpack_f b_oy, unpack_f bz))"
proof -
  obtain v0 v1 v2 v3 where bv: "bv = [v0, v1, v2, v3]"
    using four_bytes [OF assms(7)] by blast
  obtain a0 a1 a2 a3 where bx: "bx = [a0, a1, a2, a3]"
    using four_bytes [OF assms(9)] by blast
  obtain b0 b1 b2 b3 where b_oy: "b_oy = [b0, b1, b2, b3]"
    using four_bytes [OF assms(11)] by blast
  obtain c0 c1 c2 c3 where bz: "bz = [c0, c1, c2, c3]"
    using four_bytes [OF assms(13)] by blast
  let ?payload = "planes_bytes dim_x dim_y dim_z (cells grid) [0..<dim_z]"
  let ?hdr = "[0x53, 0x54, 0x56, 0x58, 1, 0, 64, 0,
          of_nat (dim_x mod 256), of_nat (dim_x div 256 mod 256),
          of_nat (dim_x div 65536 mod 256), of_nat (dim_x div 16777216),
          of_nat (dim_y mod 256), of_nat (dim_y div 256 mod 256),
          of_nat (dim_y div 65536 mod 256), of_nat (dim_y div 16777216),
          of_nat (dim_z mod 256), of_nat (dim_z div 256 mod 256),
          of_nat (dim_z div 65536 mod 256), of_nat (dim_z div 16777216),
          v0, v1, v2, v3, a0, a1, a2, a3, b0, b1, b2, b3, c0, c1, c2, c3,
          0x52, 0x4C, 0x45, 0x31, 0, 0, 0, 0 :: byte]"
  have hdr: "write_header pack_f dim_x dim_y dim_z voxel_size (origin_x, origin_y, origin_z) =
             Inr (?hdr @ replicate 20 0)"
    using write_header_bytes [OF assms(3,4,5), of pack_f voxel_size v0 v1 v2 v3
        origin_x a0 a1 a2 a3 origin_y b0 b1 b2 b3 origin_z c0 c1 c2 c3]
      assms(6,8,10,12) bv bx b_oy bz by simp
  have w: "write_rlevox pack_f grid voxel_size (origin_x, origin_y, origin_z) =
           Inr ((?hdr @ replicate 20 0) @ ?payload)"
    unfolding write_rlevox_def assms(1) list.case write_all.simps hdr write_payload_ok
    by simp
  have g: "\<lparr>shape = [dim_x, dim_y, dim_z], cells = cells grid\<rparr> = grid"
    using assms(1) by (cases grid) simp
  have r: "read_rlevox unpack_f (?hdr @ replicate 20 0 @ ?payload) =
           Inr (grid, unpack_f bv, (unpack_f bx, unpack_f b_oy, unpack_f bz))"
    unfolding read_rlevox_header [OF unpack_I_bytes [OF assms(3)] unpack_I_bytes [OF assms(4)]
        unpack_I_bytes [OF assms(5)]] read_payload_encoded [OF assms(2)]
    by (simp add: bind_e_def g bv bx b_oy bz)
  show ?thesis
    using w r by simp
qed

lemma write_all_Inr: "write_all ws = Inr bs \<Longrightarrow> \<forall>w \<in> set ws. \<exists>b. w = Inr b"
proof (induction ws arbitrary: bs)
  case Nil
  then show ?case by simp
next
  case (Cons w ws)
  then show ?case by (cases w) (auto split: sum.splits)
qed

lemma pack_I_Inr: "pack_I n = Inr b \<Longrightarrow> n < 4294967296"
  by (simp add: pack_I_def split: if_splits)

lemma write_header_Inr:
  assumes "write_header pack_f dim_x dim_y dim_z voxel_size (origin_x, origin_y, origin_z) = Inr h"
  shows "dim_x < 4294967296 \<and> dim_y < 4294967296 \<and> dim_z < 4294967296 \<and>
         (\<exists>b. pack_f voxel_size = Inr b) \<and> (\<exists>b. pack_f origin_x = Inr b) \<and>
         (\<exists>b. pack_f origin_y = Inr b) \<and> (\<exists>b. pack_f origin_z = Inr b)"
proof -
  let ?ws = "[Inr MAGIC, pack_H VERSION, pack_H HEADER_SIZE,
                 pack_I dim_x, pack_I dim_y, pack_I dim_z,
                 pack_f voxel_size,
                 pack_f origin_x, pack_f origin_y, pack_f origin_z,
                 Inr ENCODING, pack_I 0]"
  obtain hdr where "write_all ?ws = Inr hdr"
    using assms by (cases "write_all ?ws") (simp_all add: write_header_def)
  then have all: "\<forall>w \<in> set ?ws. \<exists>b. w = Inr b"
    by (rule write_all_Inr)
  have "\<exists>b. pack_I dim_x = Inr b" "\<exists>b. pack_I dim_y = Inr b" "\<exists>b. pack_I dim_z = Inr b"
    "\<exists>b. pack_f voxel_size = Inr b" "\<exists>b. pack_f origin_x = Inr b"
    "\<exists>b. pack_f origin_y = Inr b" "\<exists>b. pack_f origin_z = Inr b"
    using all by simp_all
  then show ?thesis
    using pack_I_Inr by blast
qed

lemma write_rlevox_Inr:
  assumes "write_rlevox pack_f grid voxel_size origin = Inr file"
    and "shape grid = [dim_x, dim_y, dim_z]"
  shows "\<exists>h. write_header pack_f dim_x dim_y dim_z voxel_size origin = Inr h"
  using assms write_all_Inr [of "write_header pack_f dim_x dim_y dim_z voxel_size origin
             # map pack_record (grid_records dim_x dim_y dim_z (cells grid))" "file"]
  by (simp add: write_rlevox_def)

text \<open>
  Outside the format: a dimension of \<open>2^32\<close> or more does not fit the header, and
  \<open>struct.pack("<I", ...)\<close> raises before any byte is written.
\<close>

lemma write_header_large_dimension:
  assumes "4294967296 \<le> dim_x \<or> 4294967296 \<le> dim_y \<or> 4294967296 \<le> dim_z"
  shows "write_header pack_f dim_x dim_y dim_z voxel_size origin = Inl StructError"
  using assms
  by (cases origin)
     (auto simp: write_header_def pack_H_def pack_I_def VERSION_def HEADER_SIZE_def)

lemma write_rlevox_large_dimension:
  assumes "shape grid = [dim_x, dim_y, dim_z]"
    and "4294967296 \<le> dim_x \<or> 4294967296 \<le> dim_y \<or> 4294967296 \<le> dim_z"
  shows "write_rlevox pack_f grid voxel_size origin = Inl StructError"
  by (simp add: write_rlevox_def assms(1) write_header_large_dimension [OF assms(2)])
text \<open>
  Claim C1 (codec round trip). Take a boolean 3-dimensional array \<open>grid\<close> of shape
  \<open>(dim_x, dim_y, dim_z)\<close>. Whenever \<open>write_rlevox\<close> produces bytes,
  \<open>read_rlevox\<close> on them returns a grid equal to \<open>grid\<close>, shape and every cell, and
  returns for \<open>voxel_size\<close> and the origin the values \<open>struct.unpack("<f", ...)\<close> gives
  on the four bytes packed from the originals, that is the originals at float32
  precision. And \<open>write_rlevox\<close> does produce bytes for every array the format holds:
  when each dimension fits the header's uint32 field and \<open>struct.pack("<f", ...)\<close>
  accepts \<open>voxel_size\<close> and the three origin coordinates.
\<close>

theorem rlevox_round_trip:
  assumes "shape grid = [dim_x, dim_y, dim_z]"
    and "length (cells grid) = dim_x * dim_y * dim_z"
    and "\<forall>v bs. pack_f v = Inr bs \<longrightarrow> length bs = 4"
  shows "(write_rlevox pack_f grid voxel_size (origin_x, origin_y, origin_z) = Inr encoded \<longrightarrow>
            (\<exists>bv bx b_oy bz.
               pack_f voxel_size = Inr bv \<and> pack_f origin_x = Inr bx \<and>
               pack_f origin_y = Inr b_oy \<and> pack_f origin_z = Inr bz \<and>
               read_rlevox unpack_f encoded =
                 Inr (grid, unpack_f bv, (unpack_f bx, unpack_f b_oy, unpack_f bz)))) \<and>
         (dim_x < 4294967296 \<and> dim_y < 4294967296 \<and> dim_z < 4294967296 \<and>
          (\<exists>b. pack_f voxel_size = Inr b) \<and> (\<exists>b. pack_f origin_x = Inr b) \<and>
          (\<exists>b. pack_f origin_y = Inr b) \<and> (\<exists>b. pack_f origin_z = Inr b) \<longrightarrow>
            (\<exists>bytes. write_rlevox pack_f grid voxel_size (origin_x, origin_y, origin_z) = Inr bytes))"
proof (intro conjI impI)
  assume w: "write_rlevox pack_f grid voxel_size (origin_x, origin_y, origin_z) = Inr encoded"
  obtain h where h: "write_header pack_f dim_x dim_y dim_z voxel_size (origin_x, origin_y, origin_z) = Inr h"
    using write_rlevox_Inr [OF w assms(1)] by blast
  obtain bv bx b_oy bz where d: "dim_x < 4294967296" "dim_y < 4294967296" "dim_z < 4294967296"
    and p: "pack_f voxel_size = Inr bv" "pack_f origin_x = Inr bx"
      "pack_f origin_y = Inr b_oy" "pack_f origin_z = Inr bz"
    using write_header_Inr [OF h] by auto
  obtain f where f: "write_rlevox pack_f grid voxel_size (origin_x, origin_y, origin_z) = Inr f"
    "read_rlevox unpack_f f = Inr (grid, unpack_f bv, (unpack_f bx, unpack_f b_oy, unpack_f bz))"
    using round_trip_bounded [where pack_f = pack_f and voxel_size = voxel_size
        and origin_x = origin_x and origin_y = origin_y and origin_z = origin_z
        and unpack_f = unpack_f and bv = bv and bx = bx and b_oy = b_oy and bz = bz,
        OF assms(1,2) d p(1) assms(3) [rule_format, OF p(1)] p(2) assms(3) [rule_format, OF p(2)]
        p(3) assms(3) [rule_format, OF p(3)] p(4) assms(3) [rule_format, OF p(4)]]
    by blast
  then have "f = encoded" using w by simp
  then show "\<exists>bv bx b_oy bz.
               pack_f voxel_size = Inr bv \<and> pack_f origin_x = Inr bx \<and>
               pack_f origin_y = Inr b_oy \<and> pack_f origin_z = Inr bz \<and>
               read_rlevox unpack_f encoded =
                 Inr (grid, unpack_f bv, (unpack_f bx, unpack_f b_oy, unpack_f bz))"
    using p f(2) by blast
next
  assume a: "dim_x < 4294967296 \<and> dim_y < 4294967296 \<and> dim_z < 4294967296 \<and>
          (\<exists>b. pack_f voxel_size = Inr b) \<and> (\<exists>b. pack_f origin_x = Inr b) \<and>
          (\<exists>b. pack_f origin_y = Inr b) \<and> (\<exists>b. pack_f origin_z = Inr b)"
  then obtain bv bx b_oy bz where p: "pack_f voxel_size = Inr bv" "pack_f origin_x = Inr bx"
      "pack_f origin_y = Inr b_oy" "pack_f origin_z = Inr bz"
    by blast
  have d: "dim_x < 4294967296" "dim_y < 4294967296" "dim_z < 4294967296"
    using a by simp_all
  show "\<exists>bytes. write_rlevox pack_f grid voxel_size (origin_x, origin_y, origin_z) = Inr bytes"
    using round_trip_bounded [where pack_f = pack_f and voxel_size = voxel_size
        and origin_x = origin_x and origin_y = origin_y and origin_z = origin_z
        and unpack_f = unpack_f and bv = bv and bx = bx and b_oy = b_oy and bz = bz,
        OF assms(1,2) d p(1) assms(3) [rule_format, OF p(1)] p(2) assms(3) [rule_format, OF p(2)]
        p(3) assms(3) [rule_format, OF p(3)] p(4) assms(3) [rule_format, OF p(4)]]
    by blast
qed

theorem rlevox_round_trip_witness:
  "\<exists>encoded.
     write_rlevox (\<lambda>v :: nat. Inr [of_nat v, 0, 0, 0])
       \<lparr>shape = [2, 1, 2], cells = [True, False, True, True]\<rparr> 1 (0, 2, 0) = Inr encoded \<and>
     read_rlevox (\<lambda>bs. unat (hd bs)) encoded =
       Inr (\<lparr>shape = [2, 1, 2], cells = [True, False, True, True]\<rparr>, 1, (0, 2, 0))"
proof -
  define pack :: "nat \<Rightarrow> error + byte list" where "pack = (\<lambda>v. Inr [of_nat v, 0, 0, 0])"
  define unpack :: "byte list \<Rightarrow> nat" where "unpack = (\<lambda>bs. unat (hd bs))"
  define grid where "grid = \<lparr>shape = [2, 1, 2], cells = [True, False, True, True]\<rparr>"
  have s: "shape grid = [2, 1, 2]" and l: "length (cells grid) = 2 * 1 * 2"
    by (simp_all add: grid_def)
  have f: "\<forall>v bs. pack v = Inr bs \<longrightarrow> length bs = 4"
    by (auto simp: pack_def)
  note rt = rlevox_round_trip [where grid = grid and dim_x = 2 and dim_y = 1 and dim_z = 2
      and pack_f = pack and voxel_size = 1 and origin_x = 0 and origin_y = 2 and origin_z = 0
      and unpack_f = unpack, OF s l f]
  have prem: "(2 :: nat) < 4294967296 \<and> (1 :: nat) < 4294967296 \<and> (2 :: nat) < 4294967296 \<and>
      (\<exists>b. pack 1 = Inr b) \<and> (\<exists>b. pack 0 = Inr b) \<and> (\<exists>b. pack 2 = Inr b) \<and>
      (\<exists>b. pack 0 = Inr b)"
    by (simp add: pack_def)
  obtain encoded where w: "write_rlevox pack grid 1 (0, 2, 0) = Inr encoded"
    using rt [where encoded = "[]", THEN conjunct2, THEN mp, OF prem] by blast
  obtain bv bx b_oy bz where p: "pack 1 = Inr bv" "pack 0 = Inr bx" "pack 2 = Inr b_oy"
      "pack 0 = Inr bz"
    and r: "read_rlevox unpack encoded = Inr (grid, unpack bv, (unpack bx, unpack b_oy, unpack bz))"
    using rt [where encoded = encoded, THEN conjunct1, THEN mp, OF w] by blast
  have "unpack bv = 1" "unpack bx = 0" "unpack b_oy = 2" "unpack bz = 0"
    using p by (auto simp: pack_def unpack_def)
  then have "read_rlevox unpack encoded = Inr (grid, 1, (0, 2, 0))"
    using r by simp
  with w show ?thesis
    unfolding pack_def unpack_def grid_def by blast
qed

section \<open>Parsing a manifest\<close>

lemma bind_e_Inr: "bind_e r k = Inr y \<longleftrightarrow> (\<exists>v. r = Inr v \<and> k v = Inr y)"
  by (cases r) (simp_all add: bind_e_def)

lemma bind_e_Inl: "bind_e r k = Inl e \<longleftrightarrow> r = Inl e \<or> (\<exists>v. r = Inr v \<and> k v = Inl e)"
  by (cases r) (simp_all add: bind_e_def)

lemma kwargs_error: "kwargs v = Inl e \<Longrightarrow> e = TypeError"
  by (cases v) simp_all

lemma py_iter_error: "py_iter v = Inl e \<Longrightarrow> e = TypeError"
  by (cases v) simp_all

lemma Level_list_error: "Level_list ls = Inl e \<Longrightarrow> e = TypeError"
proof (induction ls)
  case Nil
  then show ?case by simp
next
  case (Cons l ls)
  then show ?case
    by (auto simp: bind_e_Inl Level_init_def dest: kwargs_error split: if_splits)
qed

lemma optional_init_error:
  assumes "\<forall>kw e. init kw = Inl e \<longrightarrow> e = TypeError"
  shows "optional_init init d key = Inl e \<Longrightarrow> e = TypeError"
  using assms
  by (auto simp: optional_init_def bind_e_Inl dest: kwargs_error split: option.splits if_splits)

lemma from_dict_error: "from_dict now (JDict d) = Inl e \<Longrightarrow> e = TypeError"
proof -
  assume a: "from_dict now (JDict d) = Inl e"
  have g: "\<forall>kw e. Generator_init kw = Inl e \<longrightarrow> e = TypeError"
    by (simp add: Generator_init_def split: if_splits)
  have w: "\<forall>kw e. World_init kw = Inl e \<longrightarrow> e = TypeError"
    by (simp add: World_init_def split: if_splits)
  have ax: "\<And>kw e. Axis_init kw = Inl e \<Longrightarrow> e = TypeError"
    by (simp add: Axis_init_def split: if_splits)
  show ?thesis
    using a kwargs_error py_iter_error Level_list_error ax
      optional_init_error [OF g] optional_init_error [OF w]
    unfolding from_dict_def json.case bind_e_Inl
    by blast
qed

lemma from_dict_cong:
  assumes "\<forall>key \<in> set manifest_keys. map_of d' key = map_of d key"
  shows "from_dict now (JDict d') = from_dict now (JDict d)"
proof -
  have "\<And>key dflt. key \<in> set manifest_keys \<Longrightarrow> dict_get d' key dflt = dict_get d key dflt"
    using assms by (simp add: dict_get_def)
  then have g: "dict_get d' ''axis'' = dict_get d ''axis''"
    "dict_get d' ''levels'' = dict_get d ''levels''"
    "dict_get d' ''format'' = dict_get d ''format''"
    "dict_get d' ''version'' = dict_get d ''version''"
    "dict_get d' ''created_utc'' = dict_get d ''created_utc''"
    "dict_get d' ''units'' = dict_get d ''units''"
    "dict_get d' ''assets'' = dict_get d ''assets''"
    by (auto simp: manifest_keys_def)
  have o: "\<And>init. optional_init init d' ''generator'' = optional_init init d ''generator''"
    "\<And>init. optional_init init d' ''world'' = optional_init init d ''world''"
    using assms by (simp_all add: optional_init_def manifest_keys_def)
  show ?thesis
    unfolding from_dict_def json.case g o ..
qed

lemma Level_list_Inr:
  "Level_list ls = Inr r \<Longrightarrow>
   \<forall>l \<in> set ls. \<exists>kw. l = JDict kw \<and> fst ` set kw \<subseteq> {''id'', ''path'', ''name''}"
proof (induction ls arbitrary: r)
  case Nil
  then show ?case by simp
next
  case (Cons l ls)
  from Cons.prems obtain kw x r' where k: "kwargs l = Inr kw" and i: "Level_init kw = Inr x"
    and r: "Level_list ls = Inr r'"
    by (auto simp: bind_e_Inr)
  have "l = JDict kw" using k by (cases l) simp_all
  moreover have "fst ` set kw \<subseteq> {''id'', ''path'', ''name''}"
    using i by (auto simp: Level_init_def list_all_iff split: if_splits)
  ultimately show ?case using Cons.IH [OF r] by auto
qed

lemma optional_init_Inr:
  assumes "optional_init init d key = Inr r" and "map_of d key = Some v" and "truthy v"
  shows "\<exists>kw x. v = JDict kw \<and> init kw = Inr x"
proof -
  from assms obtain kw x where k: "kwargs v = Inr kw" and i: "init kw = Inr x"
    by (auto simp: optional_init_def bind_e_Inr)
  have "v = JDict kw" using k by (cases v) simp_all
  with i show ?thesis by blast
qed

lemma nested_unknown_key_raises:
  assumes "from_dict now (JDict d) = Inr m"
  shows "(map_of d ''axis'' = Some (JDict kw) \<longrightarrow>
            fst ` set kw \<subseteq> {''up'', ''forward'', ''handedness''}) \<and>
         (map_of d ''levels'' = Some (JList ls) \<longrightarrow>
            (\<forall>l \<in> set ls. \<exists>kw. l = JDict kw \<and> fst ` set kw \<subseteq> {''id'', ''path'', ''name''})) \<and>
         (map_of d ''generator'' = Some (JDict kw) \<longrightarrow>
            fst ` set kw \<subseteq> {''name'', ''version'', ''git_commit''}) \<and>
         (map_of d ''world'' = Some (JDict kw) \<longrightarrow>
            fst ` set kw \<subseteq> {''title'', ''tags'', ''privacy''})"
proof -
  from assms obtain akw ax lvls lv g w where
    a: "kwargs (dict_get d ''axis'' (JDict [])) = Inr akw" "Axis_init akw = Inr ax"
    and l: "py_iter (dict_get d ''levels'' (JList [])) = Inr lvls" "Level_list lvls = Inr lv"
    and g: "optional_init Generator_init d ''generator'' = Inr g"
    and w: "optional_init World_init d ''world'' = Inr w"
    unfolding from_dict_def json.case bind_e_Inr by blast
  have 1: "map_of d ''axis'' = Some (JDict kw) \<longrightarrow>
            fst ` set kw \<subseteq> {''up'', ''forward'', ''handedness''}"
    using a by (auto simp: dict_get_def Axis_init_def list_all_iff split: if_splits)
  have 2: "map_of d ''levels'' = Some (JList ls) \<longrightarrow>
            (\<forall>l \<in> set ls. \<exists>kw. l = JDict kw \<and> fst ` set kw \<subseteq> {''id'', ''path'', ''name''})"
    using l Level_list_Inr [of ls lv] by (auto simp: dict_get_def)
  have 3: "map_of d ''generator'' = Some (JDict kw) \<longrightarrow>
            fst ` set kw \<subseteq> {''name'', ''version'', ''git_commit''}"
  proof
    assume s: "map_of d ''generator'' = Some (JDict kw)"
    show "fst ` set kw \<subseteq> {''name'', ''version'', ''git_commit''}"
    proof (cases "kw = []")
      case True
      then show ?thesis by simp
    next
      case False
      then have "truthy (JDict kw)" by simp
      from optional_init_Inr [OF g s this]
      show ?thesis by (auto simp: Generator_init_def list_all_iff split: if_splits)
    qed
  qed
  have 4: "map_of d ''world'' = Some (JDict kw) \<longrightarrow>
            fst ` set kw \<subseteq> {''title'', ''tags'', ''privacy''}"
  proof
    assume s: "map_of d ''world'' = Some (JDict kw)"
    show "fst ` set kw \<subseteq> {''title'', ''tags'', ''privacy''}"
    proof (cases "kw = []")
      case True
      then show ?thesis by simp
    next
      case False
      then have "truthy (JDict kw)" by simp
      from optional_init_Inr [OF w s this]
      show ?thesis by (auto simp: World_init_def list_all_iff split: if_splits)
    qed
  qed
  show ?thesis using 1 2 3 4 by blast
qed

text \<open>
  Claim C4 (forward-compatible parsing), as the code has it. \<open>Manifest.from_dict\<close> reads
  its argument only through \<open>d.get\<close> and \<open>in\<close> on the nine keys it knows, so keys it
  does not know are ignored at the top level: two dicts that agree on those nine keys
  parse alike. The nested objects are passed as keyword arguments to the dataclass
  constructors (\<open>Axis(**...)\<close>, \<open>Level(**lvl)\<close>, \<open>Generator(**...)\<close>, \<open>World(**...)\<close>),
  which accept their own fields only: a key that is not a field, inside \<open>axis\<close>, an
  entry of \<open>levels\<close>, \<open>generator\<close> or \<open>world\<close>, makes parsing raise \<open>TypeError\<close>.
\<close>

theorem unknown_fields_ignored_at_top_level_only:
  "((\<forall>key \<in> set manifest_keys. map_of d' key = map_of d key) \<longrightarrow>
      from_dict now (JDict d') = from_dict now (JDict d)) \<and>
   (k \<in> fst ` set kw \<and>
    (map_of d ''axis'' = Some (JDict kw) \<and> k \<notin> {''up'', ''forward'', ''handedness''} \<or>
     map_of d ''levels'' = Some (JList ls) \<and> JDict kw \<in> set ls \<and> k \<notin> {''id'', ''path'', ''name''} \<or>
     map_of d ''generator'' = Some (JDict kw) \<and> k \<notin> {''name'', ''version'', ''git_commit''} \<or>
     map_of d ''world'' = Some (JDict kw) \<and> k \<notin> {''title'', ''tags'', ''privacy''}) \<longrightarrow>
      from_dict now (JDict d) = Inl TypeError)"
proof (intro conjI impI)
  assume "\<forall>key \<in> set manifest_keys. map_of d' key = map_of d key"
  then show "from_dict now (JDict d') = from_dict now (JDict d)"
    by (rule from_dict_cong)
next
  assume a: "k \<in> fst ` set kw \<and>
    (map_of d ''axis'' = Some (JDict kw) \<and> k \<notin> {''up'', ''forward'', ''handedness''} \<or>
     map_of d ''levels'' = Some (JList ls) \<and> JDict kw \<in> set ls \<and> k \<notin> {''id'', ''path'', ''name''} \<or>
     map_of d ''generator'' = Some (JDict kw) \<and> k \<notin> {''name'', ''version'', ''git_commit''} \<or>
     map_of d ''world'' = Some (JDict kw) \<and> k \<notin> {''title'', ''tags'', ''privacy''})"
  show "from_dict now (JDict d) = Inl TypeError"
  proof (cases "from_dict now (JDict d)")
    case (Inl e)
    then show ?thesis using from_dict_error by blast
  next
    case (Inr m)
    note n = nested_unknown_key_raises [OF Inr, of kw ls]
    from a have k: "k \<in> fst ` set kw" by (rule conjunct1)
    from a consider
        (ax) "map_of d ''axis'' = Some (JDict kw)" "k \<notin> {''up'', ''forward'', ''handedness''}"
      | (lv) "map_of d ''levels'' = Some (JList ls)" "JDict kw \<in> set ls"
          "k \<notin> {''id'', ''path'', ''name''}"
      | (gn) "map_of d ''generator'' = Some (JDict kw)"
          "k \<notin> {''name'', ''version'', ''git_commit''}"
      | (wo) "map_of d ''world'' = Some (JDict kw)" "k \<notin> {''title'', ''tags'', ''privacy''}"
      by blast
    then have False
    proof cases
      case ax
      then have "fst ` set kw \<subseteq> {''up'', ''forward'', ''handedness''}"
        using n by (simp only: simp_thms)
      with k ax(2) show False by (meson subsetD)
    next
      case lv
      then obtain kw' where "JDict kw = JDict kw'" "fst ` set kw' \<subseteq> {''id'', ''path'', ''name''}"
        using n by (simp only: simp_thms) (meson)
      then have "fst ` set kw \<subseteq> {''id'', ''path'', ''name''}" by (simp only: json.inject)
      with k lv(3) show False by (meson subsetD)
    next
      case gn
      then have "fst ` set kw \<subseteq> {''name'', ''version'', ''git_commit''}"
        using n by (simp only: simp_thms)
      with k gn(2) show False by (meson subsetD)
    next
      case wo
      then have "fst ` set kw \<subseteq> {''title'', ''tags'', ''privacy''}"
        using n by (simp only: simp_thms)
      with k wo(2) show False by (meson subsetD)
    qed
    then show ?thesis ..
  qed
qed

theorem unknown_fields_ignored_at_top_level_only_witness:
  "from_dict ''2025-01-01T00:00:00+00:00''
     (JDict [(''units'', JStr ''feet''), (''future_field'', JInt 7)]) =
   from_dict ''2025-01-01T00:00:00+00:00'' (JDict [(''units'', JStr ''feet'')]) \<and>
   from_dict ''2025-01-01T00:00:00+00:00''
     (JDict [(''world'', JDict [(''title'', JStr ''A''), (''owner'', JStr ''B'')])]) = Inl TypeError"
proof -
  have h1: "\<forall>key \<in> set manifest_keys.
      map_of [(''units'', JStr ''feet''), (''future_field'', JInt 7)] key =
      map_of [(''units'', JStr ''feet'')] key"
    by (simp add: manifest_keys_def)
  have h2: "''owner'' \<in> fst ` set [(''title'', JStr ''A''), (''owner'', JStr ''B'')] \<and>
    (map_of [(''world'', JDict [(''title'', JStr ''A''), (''owner'', JStr ''B'')])] ''axis'' =
       Some (JDict [(''title'', JStr ''A''), (''owner'', JStr ''B'')]) \<and>
       ''owner'' \<notin> {''up'', ''forward'', ''handedness''} \<or>
     map_of [(''world'', JDict [(''title'', JStr ''A''), (''owner'', JStr ''B'')])] ''levels'' =
       Some (JList []) \<and>
       JDict [(''title'', JStr ''A''), (''owner'', JStr ''B'')] \<in> set [] \<and>
       ''owner'' \<notin> {''id'', ''path'', ''name''} \<or>
     map_of [(''world'', JDict [(''title'', JStr ''A''), (''owner'', JStr ''B'')])] ''generator'' =
       Some (JDict [(''title'', JStr ''A''), (''owner'', JStr ''B'')]) \<and>
       ''owner'' \<notin> {''name'', ''version'', ''git_commit''} \<or>
     map_of [(''world'', JDict [(''title'', JStr ''A''), (''owner'', JStr ''B'')])] ''world'' =
       Some (JDict [(''title'', JStr ''A''), (''owner'', JStr ''B'')]) \<and>
       ''owner'' \<notin> {''title'', ''tags'', ''privacy''})"
    by simp
  show ?thesis
    using unknown_fields_ignored_at_top_level_only
        [where d' = "[(''units'', JStr ''feet''), (''future_field'', JInt 7)]"
          and d = "[(''units'', JStr ''feet'')]", THEN conjunct1, THEN mp, OF h1]
      unknown_fields_ignored_at_top_level_only
        [where d = "[(''world'', JDict [(''title'', JStr ''A''), (''owner'', JStr ''B'')])]"
          and kw = "[(''title'', JStr ''A''), (''owner'', JStr ''B'')]" and k = "''owner''"
          and ls = "[]", THEN conjunct2, THEN mp, OF h2]
    by blast
qed

text \<open>
  The claim as stated fails: an \<open>axis\<close> object with one field the code does not know
  raises, where the same input without that field parses.
\<close>

theorem unknown_fields_counterexample:
  "from_dict ''2025-01-01T00:00:00+00:00''
     (JDict [(''axis'', JDict [(''up'', JStr ''Z''), (''tilt'', JInt 3)])]) = Inl TypeError \<and>
   (\<exists>m. from_dict ''2025-01-01T00:00:00+00:00''
          (JDict [(''axis'', JDict [(''up'', JStr ''Z'')])]) = Inr m)"
  by (simp add: from_dict_def bind_e_def dict_get_def Axis_init_def optional_init_def)

section \<open>Packing\<close>

subsection \<open>Python dicts as association lists\<close>

lemma map_of_dict_update:
  "map_of (dict_update d other) k =
     (case map_of (rev other) k of Some v \<Rightarrow> Some v | None \<Rightarrow> map_of d k)"
  unfolding dict_update_def
proof (induction other arbitrary: d)
  case Nil
  then show ?case by simp
next
  case (Cons kv other)
  show ?case
    by (simp add: Cons.IH update_conv' map_add_def split: option.splits)
qed

lemma keys_dict_update:
  "set (map fst (dict_update d other)) = set (map fst d) \<union> set (map fst other)"
  unfolding dict_update_def
proof (induction other arbitrary: d)
  case Nil
  then show ?case by simp
next
  case (Cons kv other)
  have "fst ` set (AList.update (fst kv) (snd kv) d) = insert (fst kv) (fst ` set d)"
    using dom_update [of "fst kv" "snd kv" d] by (simp add: dom_map_of_conv_image_fst)
  then show ?case
    using Cons.IH [of "AList.update (fst kv) (snd kv) d"] by auto
qed

lemma distinct_dict_update:
  "distinct (map fst d) \<Longrightarrow> distinct (map fst (dict_update d other))"
  unfolding dict_update_def
  by (induction other arbitrary: d) (simp_all add: distinct_update)

lemma map_of_rev_distinct: "distinct (map fst xs) \<Longrightarrow> map_of (rev xs) = map_of xs"
  by (rule ext) (metis distinct_rev map_of_eq_Some_iff not_Some_eq rev_map set_rev map_of_eq_None_iff)

subsection \<open>The order of the members\<close>

lemma members_of_names:
  "set ps \<subseteq> set (map fst files) \<Longrightarrow> map fst (members_of files ps) = ps"
proof (induction ps)
  case Nil
  then show ?case by simp
next
  case (Cons p ps)
  then obtain bs where "map_of files p = Some bs"
    by (metis list.set_intros(1) map_of_eq_None_iff not_Some_eq set_map subsetD)
  then show ?case using Cons by simp
qed

lemma members_of_names_subset: "fst ` set (members_of files ps) \<subseteq> set ps"
  by (induction ps) (auto split: option.splits)

lemma members_of_lookup:
  "p \<in> set ps \<Longrightarrow> distinct ps \<Longrightarrow> map_of (members_of files ps) p = map_of files p"
proof (induction ps)
  case Nil
  then show ?case by simp
next
  case (Cons q ps)
  show ?case
  proof (cases "map_of files q")
    case None
    have "q \<notin> set ps \<Longrightarrow> map_of (members_of files ps) q = None"
      using members_of_names_subset [of files ps] by (auto simp: map_of_eq_None_iff)
    then show ?thesis using None Cons by (cases "p = q") auto
  next
    case (Some bs)
    then show ?thesis using Cons by (cases "p = q") auto
  qed
qed

lemma order_paths_shape:
  assumes "distinct ps" and "''manifest.json'' \<in> set ps"
  shows "order_paths ps =
     ''manifest.json'' # remove1 ''checksums.sha256'' (remove1 ''manifest.json'' (sort ps))
     @ (if ''checksums.sha256'' \<in> set ps then [''checksums.sha256''] else [])"
proof -
  have ne: "''manifest.json'' \<noteq> ''checksums.sha256''" by simp
  have m: "''manifest.json'' \<in> set (sort ps)" using assms by simp
  show ?thesis
  proof (cases "''checksums.sha256'' \<in> set ps")
    case True
    then have "''checksums.sha256'' \<in> set (remove1 ''manifest.json'' (sort ps))"
      using ne by (metis in_set_remove1 set_sort)
    then show ?thesis
      using m True by (simp add: order_paths_def Let_def)
  next
    case False
    then have n: "''checksums.sha256'' \<notin> set (remove1 ''manifest.json'' (sort ps))"
      by (metis notin_set_remove1 set_sort)
    then have "remove1 ''checksums.sha256'' (remove1 ''manifest.json'' (sort ps)) =
               remove1 ''manifest.json'' (sort ps)"
      by (rule remove1_idem)
    then show ?thesis
      using m False n by (simp add: order_paths_def Let_def)
  qed
qed

lemma middle_sorted:
  assumes "distinct ps"
  shows "sorted (remove1 c (remove1 m (sort ps)))"
    and "distinct (remove1 c (remove1 m (sort ps)))"
    and "set (remove1 c (remove1 m (sort ps))) = set ps - {m, c}"
proof -
  have d: "distinct (sort ps)" using assms by simp
  show "sorted (remove1 c (remove1 m (sort ps)))"
    by (simp add: sorted_remove1)
  show "distinct (remove1 c (remove1 m (sort ps)))"
    using d by simp
  show "set (remove1 c (remove1 m (sort ps))) = set ps - {m, c}"
    using d by (auto simp: set_remove1_eq)
qed

lemma order_paths_set:
  assumes "distinct ps" and "''manifest.json'' \<in> set ps"
  shows "set (order_paths ps) = set ps" and "distinct (order_paths ps)"
proof -
  note mid = middle_sorted [OF assms(1), of "''checksums.sha256''" "''manifest.json''"]
  show "set (order_paths ps) = set ps"
    unfolding order_paths_shape [OF assms] using assms(2) mid(3) by auto
  show "distinct (order_paths ps)"
    unfolding order_paths_shape [OF assms] using mid(2,3) by auto
qed

subsection \<open>The files packed and the members written\<close>

lemma all_files_keys:
  "set (map fst (dict_update [(''manifest.json'', mb)] fm)) =
     insert ''manifest.json'' (set (map fst fm))"
  and all_files_distinct: "distinct (map fst (dict_update [(''manifest.json'', mb)] fm))"
  using keys_dict_update [of "[(''manifest.json'', mb)]" fm]
    distinct_dict_update [of "[(''manifest.json'', mb)]" fm]
  by simp_all

lemma build_files_keys:
  "set (map fst (build_files sha256 mb fm cs)) =
     insert ''manifest.json'' (set (map fst fm)) \<union> (if cs then {''checksums.sha256''} else {})"
proof -
  have "fst ` set (AList.update ''checksums.sha256'' x (dict_update [(''manifest.json'', mb)] fm)) =
        insert ''checksums.sha256'' (insert ''manifest.json'' (set (map fst fm)))" for x
    using dom_update [of "''checksums.sha256''" x "dict_update [(''manifest.json'', mb)] fm"]
      all_files_keys [of mb fm]
    by (simp add: dom_map_of_conv_image_fst)
  then show ?thesis
    using all_files_keys [of mb fm] by (auto simp: build_files_def Let_def)
qed

lemma build_files_distinct: "distinct (map fst (build_files sha256 mb fm cs))"
  by (simp add: build_files_def Let_def all_files_distinct distinct_update)

lemma build_files_lookup:
  "p \<noteq> ''checksums.sha256'' \<Longrightarrow>
   map_of (build_files sha256 mb fm cs) p = map_of (dict_update [(''manifest.json'', mb)] fm) p"
  by (simp add: build_files_def Let_def update_conv')

lemma build_files_checksums:
  "map_of (build_files sha256 mb fm True) ''checksums.sha256'' =
   Some (py_join [NL] (checksum_lines sha256 (dict_update [(''manifest.json'', mb)] fm)))"
  by (simp add: build_files_def Let_def update_conv')

lemma pack_members_names:
  "namelist (pack_members dumps sha256 manifest fm cs) =
   order_paths (map fst (build_files sha256 (manifest_bytes_of dumps manifest) fm cs))"
proof -
  let ?files = "build_files sha256 (manifest_bytes_of dumps manifest) fm cs"
  have "''manifest.json'' \<in> set (map fst ?files)"
    unfolding build_files_keys by simp
  then have "set (order_paths (map fst ?files)) \<subseteq> set (map fst ?files)"
    using order_paths_set(1) [OF build_files_distinct] by blast
  then show ?thesis
    unfolding namelist_def pack_members_def Let_def by (rule members_of_names)
qed

lemma pack_members_distinct: "distinct (namelist (pack_members dumps sha256 manifest fm cs))"
proof -
  let ?files = "build_files sha256 (manifest_bytes_of dumps manifest) fm cs"
  have "''manifest.json'' \<in> set (map fst ?files)"
    unfolding build_files_keys by simp
  then show ?thesis
    unfolding pack_members_names using order_paths_set(2) [OF build_files_distinct] by blast
qed

lemma pack_members_read:
  assumes "map_of (build_files sha256 (manifest_bytes_of dumps manifest) fm cs) p = Some bs"
  shows "zf_read (pack_members dumps sha256 manifest fm cs) p = Inr bs"
    and "(p, bs) \<in> set (pack_members dumps sha256 manifest fm cs)"
proof -
  let ?files = "build_files sha256 (manifest_bytes_of dumps manifest) fm cs"
  let ?zf = "pack_members dumps sha256 manifest fm cs"
  have m: "''manifest.json'' \<in> set (map fst ?files)"
    unfolding build_files_keys by simp
  have "p \<in> set (map fst ?files)"
    using assms by (metis map_of_eq_None_iff option.distinct(1) set_map)
  then have p: "p \<in> set (order_paths (map fst ?files))"
    using order_paths_set(1) [OF build_files_distinct m] by simp
  have d: "distinct (order_paths (map fst ?files))"
    using order_paths_set(2) [OF build_files_distinct m] .
  have l: "map_of ?zf p = Some bs"
    unfolding pack_members_def Let_def using members_of_lookup [OF p d] assms by simp
  have dz: "distinct (map fst ?zf)"
    using pack_members_distinct [of dumps sha256 manifest fm cs] by (simp add: namelist_def)
  show "zf_read ?zf p = Inr bs"
    by (simp add: zf_read_def map_of_rev_distinct [OF dz] l)
  show "(p, bs) \<in> set ?zf"
    using l by (rule map_of_SomeD)
qed

lemma pack_stella_Reliable:
  assumes "mkdir fs output_path = (None, fs1)" and "fs1 output_path \<noteq> Some Directory"
  shows "pack_stella dumps sha256 mkdir Reliable fs output_path manifest file_map cs =
     (Inr output_path,
      fs1(output_path \<mapsto> File (ZipFile (pack_members dumps sha256 manifest file_map cs))))"
  using assms
  by (simp add: pack_stella_def Let_def zip_open_w_def zip_write_close_def
      split: option.splits node.splits)

lemma pack_stella_Inr:
  assumes "pack_stella dumps sha256 mkdir storage fs output_path manifest file_map cs =
             (Inr written, fs')"
  shows "written = output_path \<and>
         fs' output_path =
           Some (File (ZipFile (pack_members dumps sha256 manifest file_map cs)))"
  using assms
  by (auto simp: pack_stella_def Let_def zip_open_w_def zip_write_close_def
      split: prod.splits option.splits node.splits sum.splits storage.splits)




subsection \<open>The payload map's insertion order does not matter\<close>








subsection \<open>The lines of the checksum manifest\<close>





subsection \<open>The text of the checksum manifest\<close>







section \<open>Verifying checksums\<close>

lemma split_once_digest:
  "CHR '' '' \<notin> set h \<Longrightarrow> split_once ''  '' (h @ ''  '' @ p) = Some (h, p)"
  by (induction h) auto

lemma zf_read_member: "p \<in> set (namelist zf) \<Longrightarrow> \<exists>bs. zf_read zf p = Inr bs"
proof -
  assume "p \<in> set (namelist zf)"
  then have "p \<in> fst ` set (rev zf)" by (simp add: namelist_def)
  then obtain bs where "map_of (rev zf) p = Some bs"
    by (metis map_of_eq_None_iff not_Some_eq)
  then show ?thesis by (simp add: zf_read_def)
qed



lemma check_line_digest:
  assumes "CHR '' '' \<notin> set h"
  shows "check_line sha256 zf (h @ ''  '' @ p) =
     Inr (if p = ''checksums.sha256'' then []
          else if p \<notin> set (namelist zf) then [''Missing file: '' @ p]
          else if \<exists>bs. zf_read zf p = Inr bs \<and> sha256 bs \<noteq> h
               then [''Checksum mismatch for '' @ p]
          else [])"
proof (cases "p \<in> set (namelist zf)")
  case True
  then obtain bs where "zf_read zf p = Inr bs" using zf_read_member by blast
  then show ?thesis
    using True by (simp add: check_line_def split_once_digest [OF assms, simplified] bind_e_def)
next
  case False
  then show ?thesis
    by (simp add: check_line_def split_once_digest [OF assms, simplified])
qed

section \<open>Validating a packed archive\<close>

lemma py_strip_id:
  assumes "s \<noteq> []" "\<not> py_isspace (hd s)" "\<not> py_isspace (last s)"
  shows "py_strip s = s"
proof -
  have 1: "dropWhile py_isspace s = s"
    using assms(1,2) by (cases s) simp_all
  obtain c cs where rc: "rev s = c # cs"
    using assms(1) by (cases "rev s") auto
  then have "c = last s"
    using assms(1) by (metis hd_rev list.sel(1))
  then have "dropWhile py_isspace (c # cs) = c # cs"
    using assms(3) by simp
  then have 2: "dropWhile py_isspace (rev s) = rev s"
    by (simp only: rc)
  show ?thesis by (simp add: py_strip_def 1 2)
qed

lemma py_split_char_none: "sep \<notin> set a \<Longrightarrow> py_split_char sep a = [a]"
  by (induction a) auto

lemma py_split_char_append:
  "sep \<notin> set a \<Longrightarrow> py_split_char sep (a @ sep # b) = a # py_split_char sep b"
  by (induction a) auto

lemma hex_char:
  assumes "c \<in> set ''0123456789abcdef''"
  shows "c \<noteq> CHR '' ''" "c \<noteq> NL" "\<not> py_isspace c"
proof -
  have "(48 :: nat) \<le> of_char c"
    using assms by auto
  then show "c \<noteq> CHR '' ''" "c \<noteq> NL" "\<not> py_isspace c"
    by (auto simp: NL_def py_isspace_def)
qed

lemma hex_digest_chars:
  assumes "hex_digest h"
  shows "CHR '' '' \<notin> set h" "NL \<notin> set h" "h \<noteq> []" "\<not> py_isspace (hd h)"
proof -
  have a: "\<And>c. c \<in> set h \<Longrightarrow> c \<in> set ''0123456789abcdef''" and n: "h \<noteq> []"
    using assms by (simp_all add: hex_digest_def list_all_iff)
  show "CHR '' '' \<notin> set h" using a hex_char(1) by blast
  show "NL \<notin> set h" using a hex_char(2) by blast
  show "h \<noteq> []" by (rule n)
  have "hd h \<in> set h" using n by simp
  then show "\<not> py_isspace (hd h)" using a hex_char(3) by blast
qed

lemma checksum_line_no_newline:
  "hex_digest h \<Longrightarrow> NL \<notin> set p \<Longrightarrow> NL \<notin> set (checksum_line (p, h))"
  using hex_digest_chars(2) by (auto simp: checksum_line_def NL_def)

lemma default_manifest_levels:
  "py_contains (to_dict (make_manifest now title None tags thumbnail)) ''levels'' = Inr True"
  "py_getitem (to_dict (make_manifest now title None tags thumbnail)) ''levels'' =
     Inr (JList [JDict [(''id'', JStr ''0''), (''path'', JStr ''levels/0/level.json''),
                        (''name'', JStr ''Floor 0'')]])"
  by (simp_all add: to_dict_def make_manifest_def level_to_dict_def drop_none_def)

lemma single_level_errors:
  assumes "''levels/0/level.json'' \<in> set (namelist zf)"
    and "''levels/0/render.glb'' \<notin> set (namelist zf)"
    and "''levels/0/collision.rlevox'' \<notin> set (namelist zf)"
  shows "levels_errors py_str zf (to_dict (make_manifest now title None tags thumbnail)) =
     Inr [''Missing required file: levels/0/render.glb'',
          ''Missing required file: levels/0/collision.rlevox'']"
  using assms
  by (simp add: levels_errors_def default_manifest_levels bind_e_def dict_get_def
      format_value_def required_files_def missing_files_def)

lemma single_payload_names:
  "set (namelist (pack_members dumps sha256 manifest [(''levels/0/level.json'', lb)] cs)) =
     {''manifest.json'', ''levels/0/level.json''} \<union> (if cs then {''checksums.sha256''} else {})"
proof -
  let ?files = "build_files sha256 (manifest_bytes_of dumps manifest)
                  [(''levels/0/level.json'', lb)] cs"
  have m: "''manifest.json'' \<in> set (map fst ?files)"
    unfolding build_files_keys by simp
  show ?thesis
    unfolding pack_members_names order_paths_set(1) [OF build_files_distinct m] build_files_keys
    by simp
qed

lemma single_payload_read:
  "zf_read (pack_members dumps sha256 manifest [(''levels/0/level.json'', lb)] cs)
     ''manifest.json'' = Inr (manifest_bytes_of dumps manifest)"
  "zf_read (pack_members dumps sha256 manifest [(''levels/0/level.json'', lb)] cs)
     ''levels/0/level.json'' = Inr lb"
  by (rule pack_members_read(1), simp add: build_files_lookup map_of_dict_update)+

lemma single_payload_checksums:
  "zf_read (pack_members dumps sha256 manifest [(''levels/0/level.json'', lb)] True)
     ''checksums.sha256'' =
   Inr (checksum_line (''levels/0/level.json'', sha256 lb) @
        NL # checksum_line (''manifest.json'', sha256 (manifest_bytes_of dumps manifest)))"
proof -
  let ?mb = "manifest_bytes_of dumps manifest"
  have a: "dict_update [(''manifest.json'', ?mb)] [(''levels/0/level.json'', lb)] =
           [(''manifest.json'', ?mb), (''levels/0/level.json'', lb)]"
    by (simp add: dict_update_def)
  have s: "sort [(''manifest.json'', x), (''levels/0/level.json'', y)] =
           [(''levels/0/level.json'', y), (''manifest.json'', x :: string)]" for x y
    by (simp add: less_eq_prod_def)
  have s': "sort [(''levels/0/level.json'', y), (''manifest.json'', x)] =
           [(''levels/0/level.json'', y), (''manifest.json'', x :: string)]" for x y
    by (simp add: less_eq_prod_def)
  have c: "compute_checksums sha256 [(''manifest.json'', ?mb), (''levels/0/level.json'', lb)] =
           [(''levels/0/level.json'', sha256 lb), (''manifest.json'', sha256 ?mb)]"
    unfolding compute_checksums_def s by simp
  have "checksum_lines sha256 (dict_update [(''manifest.json'', ?mb)] [(''levels/0/level.json'', lb)]) =
        [checksum_line (''levels/0/level.json'', sha256 lb),
         checksum_line (''manifest.json'', sha256 ?mb)]"
    unfolding a checksum_lines_def c s' by simp
  then have "map_of (build_files sha256 ?mb [(''levels/0/level.json'', lb)] True)
               ''checksums.sha256'' =
        Some (checksum_line (''levels/0/level.json'', sha256 lb) @
              NL # checksum_line (''manifest.json'', sha256 ?mb))"
    unfolding build_files_checksums by simp
  then show ?thesis
    by (rule pack_members_read(1))
qed

lemma single_payload_verify:
  assumes "\<forall>bs. hex_digest (sha256 bs)"
  shows "verify_archive sha256
           (pack_members dumps sha256 manifest [(''levels/0/level.json'', lb)] True) =
         Inr (True, [])"
proof -
  let ?zf = "pack_members dumps sha256 manifest [(''levels/0/level.json'', lb)] True"
  let ?mb = "manifest_bytes_of dumps manifest"
  let ?h1 = "sha256 lb" and ?h2 = "sha256 ?mb"
  let ?L1 = "checksum_line (''levels/0/level.json'', ?h1)"
  let ?L2 = "checksum_line (''manifest.json'', ?h2)"
  have h1: "hex_digest ?h1" and h2: "hex_digest ?h2"
    using assms by simp_all
  have names: "set (namelist ?zf) =
      {''manifest.json'', ''levels/0/level.json'', ''checksums.sha256''}"
    unfolding single_payload_names by auto
  have content: "zf_read ?zf ''checksums.sha256'' = Inr (?L1 @ NL # ?L2)"
    by (rule single_payload_checksums)
  have n1: "NL \<notin> set ?L1" and n2: "NL \<notin> set ?L2"
    by (rule checksum_line_no_newline [OF h1], simp add: NL_def,
        rule checksum_line_no_newline [OF h2], simp add: NL_def)
  have split: "py_split_char NL (?L1 @ NL # ?L2) = [?L1, ?L2]"
    by (simp add: py_split_char_append [OF n1] py_split_char_none [OF n2])
  have "?L1 @ NL # ?L2 \<noteq> []" "hd (?L1 @ NL # ?L2) = hd ?h1"
    "last (?L1 @ NL # ?L2) = CHR ''n''"
    using hex_digest_chars(3) [OF h1] by (simp_all add: checksum_line_def)
  then have strip: "py_strip (?L1 @ NL # ?L2) = ?L1 @ NL # ?L2"
    using hex_digest_chars(4) [OF h1] by (intro py_strip_id) (simp_all add: py_isspace_def)
  have c1: "check_line sha256 ?zf ?L1 = Inr []"
    using check_line_digest [OF hex_digest_chars(1) [OF h1], of sha256 ?zf "''levels/0/level.json''"]
      single_payload_read(2) [of dumps sha256 manifest lb True]
    by (simp add: checksum_line_def names)
  have c2: "check_line sha256 ?zf ?L2 = Inr []"
    using check_line_digest [OF hex_digest_chars(1) [OF h2], of sha256 ?zf "''manifest.json''"]
      single_payload_read(1) [of dumps sha256 manifest lb True]
    by (simp add: checksum_line_def names)
  have "check_lines sha256 ?zf [?L1, ?L2] = Inr []"
    by (simp add: c1 c2 bind_e_def)
  then show ?thesis
    unfolding verify_archive_def content by (simp add: names bind_e_def strip split)
qed

text \<open>
  Claim C7 (validation of a missing triad). Pack the default single-level manifest of
  \<open>make_manifest\<close> (level id \<open>0\<close>) with the one payload \<open>levels/0/level.json\<close>, with
  or without checksums. Whenever \<open>pack_stella\<close> returns, validating the file at the path
  it returns gives: not valid, with exactly two errors, the first naming
  \<open>levels/0/render.glb\<close> and the second \<open>levels/0/collision.rlevox\<close>. Taken from the
  libraries: \<open>json.loads\<close> gives back the value that \<open>json.dumps\<close> serialized, and a
  SHA-256 digest is hexadecimal.
\<close>

theorem validate_missing_render_and_collision:
  assumes "\<forall>j. loads (dumps j) = Inr j"
    and "\<forall>bs. hex_digest (sha256 bs)"
    and "pack_stella dumps sha256 mkdir storage fs output_path
           (ManifestObj (make_manifest now title None tags thumbnail))
           [(''levels/0/level.json'', level_bytes)] cs = (Inr written, fs')"
  shows "validate_stella loads py_str sha256 fs' written =
         Inr (False, [''Missing required file: levels/0/render.glb'',
                      ''Missing required file: levels/0/collision.rlevox''])"
proof -
  let ?M = "make_manifest now title None tags thumbnail"
  let ?zf = "pack_members dumps sha256 (ManifestObj ?M) [(''levels/0/level.json'', level_bytes)] cs"
  have w: "written = output_path" and f: "fs' output_path = Some (File (ZipFile ?zf))"
    using pack_stella_Inr [OF assms(3)] by simp_all
  have names: "set (namelist ?zf) =
      {''manifest.json'', ''levels/0/level.json''} \<union> (if cs then {''checksums.sha256''} else {})"
    by (rule single_payload_names)
  have lv: "levels_errors py_str ?zf (to_dict ?M) =
     Inr [''Missing required file: levels/0/render.glb'',
          ''Missing required file: levels/0/collision.rlevox'']"
    by (rule single_level_errors) (simp_all add: names)
  have ld: "loads (to_json dumps ?M) = Inr (to_dict ?M)"
    unfolding to_json_def using assms(1) by simp
  have me: "manifest_errors loads py_str ?zf =
     Inr [''Missing required file: levels/0/render.glb'',
          ''Missing required file: levels/0/collision.rlevox'']"
    using single_payload_read(1) [of dumps sha256 "ManifestObj ?M" level_bytes cs] ld lv
    by (simp add: manifest_errors_def names bind_e_def manifest_bytes_of_def)
  have ck: "(if ''checksums.sha256'' \<in> set (namelist ?zf)
             then bind_e (verify_stella_checksums sha256 fs' output_path) (\<lambda>r.
                    Inr (if \<not> fst r then snd r else []))
             else Inr []) = Inr []"
  proof (cases cs)
    case True
    then have "verify_archive sha256 ?zf = Inr (True, [])"
      using single_payload_verify [OF assms(2)] by simp
    then show ?thesis
      by (simp add: verify_stella_checksums_def zf_open_def bind_e_def f)
  next
    case False
    then show ?thesis using names by simp
  qed
  show ?thesis
    unfolding w validate_stella_def
    by (simp add: f me ck bind_e_def)
qed

theorem validate_missing_render_and_collision_witness:
  "validate_stella (\<lambda>s. Inr (from_nat (length s))) (\<lambda>v. ''?'')
     (\<lambda>bs. if bs = ''{}'' then ''0a'' else ''1b'')
     (snd (pack_stella (\<lambda>j. replicate (to_nat j) (CHR ''1''))
             (\<lambda>bs. if bs = ''{}'' then ''0a'' else ''1b'') (\<lambda>fs p. (None, fs)) Reliable
             Map.empty ''out.stella''
             (ManifestObj (make_manifest ''2025-01-01'' ''Missing Files Test'' None None None))
             [(''levels/0/level.json'', ''{}'')] True))
     ''out.stella'' =
   Inr (False, [''Missing required file: levels/0/render.glb'',
                ''Missing required file: levels/0/collision.rlevox''])"
proof -
  let ?loads = "\<lambda>s :: string. (Inr (from_nat (length s)) :: error + json)"
  let ?dumps = "\<lambda>j :: json. replicate (to_nat j) (CHR ''1'')"
  let ?sha = "\<lambda>bs :: string. if bs = ''{}'' then ''0a'' else ''1b''"
  have l: "\<forall>j. ?loads (?dumps j) = Inr j"
    by simp
  have h: "\<forall>bs. hex_digest (?sha bs)"
    by (simp add: hex_digest_def)
  have m: "(\<lambda>fs p. (None, fs)) Map.empty ''out.stella'' = (None :: error option, Map.empty :: filesystem)"
    by simp
  have d: "(Map.empty :: filesystem) ''out.stella'' \<noteq> Some Directory"
    by simp
  note p = pack_stella_Reliable [where mkdir = "\<lambda>fs p. (None, fs)", OF m d, where dumps = ?dumps
      and ?sha256.0 = ?sha
      and manifest = "ManifestObj (make_manifest ''2025-01-01'' ''Missing Files Test'' None None None)"
      and file_map = "[(''levels/0/level.json'', ''{}'')]" and cs = True]
  show ?thesis
    unfolding p snd_conv
    by (rule validate_missing_render_and_collision [OF l h p, where py_str = "\<lambda>v. ''?''"])
qed

section \<open>The lines of the checksum manifest\<close>










section \<open>Packing on storage that fails\<close>

text \<open>
  Claim C3 (atomic packing), as the code has it. \<open>pack_stella\<close> writes the archive in
  place: it opens the output path itself for writing, with no temporary file, and
  removes nothing when a write raises. So once the directories are made and the output
  path is not a directory, a regular file exists at the output path after the call,
  whatever was there before and whether the call returns or raises; when a write or the
  close raises, the call raises that exception and the file is left with what has
  reached it.
\<close>

theorem pack_writes_in_place:
  assumes "mkdir fs output_path = (None, fs1)"
    and "fs1 output_path \<noteq> Some Directory"
  shows "(\<exists>content.
            snd (pack_stella dumps sha256 mkdir storage fs output_path manifest file_map cs)
              output_path = Some (File content)) \<and>
         (storage = Failing e left \<longrightarrow>
            pack_stella dumps sha256 mkdir storage fs output_path manifest file_map cs =
              (Inl e, fs1(output_path \<mapsto> File left)))"
proof (intro conjI impI)
  show "\<exists>content.
            snd (pack_stella dumps sha256 mkdir storage fs output_path manifest file_map cs)
              output_path = Some (File content)"
    using assms
    by (cases storage)
       (simp_all add: pack_stella_def Let_def zip_open_w_def zip_write_close_def
          split: option.splits node.splits)
next
  assume "storage = Failing e left"
  then show "pack_stella dumps sha256 mkdir storage fs output_path manifest file_map cs =
              (Inl e, fs1(output_path \<mapsto> File left))"
    using assms
    by (simp add: pack_stella_def Let_def zip_open_w_def zip_write_close_def
        split: option.splits node.splits)
qed

theorem pack_writes_in_place_witness:
  "(\<exists>content.
      snd (pack_stella (\<lambda>j. ''{}'') (\<lambda>bs. ''00'') (\<lambda>fs p. (None, fs)) (Failing OSError (OtherFile []))
             [''out.stella'' \<mapsto> File (OtherFile ''old'')] ''out.stella''
             (ManifestDict (JDict [])) [(''a.bin'', ''x'')] False) ''out.stella'' =
        Some (File content)) \<and>
   pack_stella (\<lambda>j. ''{}'') (\<lambda>bs. ''00'') (\<lambda>fs p. (None, fs)) (Failing OSError (OtherFile []))
     [''out.stella'' \<mapsto> File (OtherFile ''old'')] ''out.stella''
     (ManifestDict (JDict [])) [(''a.bin'', ''x'')] False =
   (Inl OSError, [''out.stella'' \<mapsto> File (OtherFile [])])"
proof -
  have m: "(\<lambda>fs p. (None, fs)) [''out.stella'' \<mapsto> File (OtherFile ''old'')] ''out.stella'' =
           (None :: error option, [''out.stella'' \<mapsto> File (OtherFile ''old'')])"
    by simp
  have d: "[''out.stella'' \<mapsto> File (OtherFile ''old'')] ''out.stella'' \<noteq> Some Directory"
    by simp
  note t = pack_writes_in_place [where mkdir = "\<lambda>fs p. (None, fs)" and output_path = "''out.stella''"
      and fs = "[''out.stella'' \<mapsto> File (OtherFile ''old'')]"
      and ?fs1.0 = "[''out.stella'' \<mapsto> File (OtherFile ''old'')]"
      and storage = "Failing OSError (OtherFile [])" and e = OSError and left = "OtherFile []"
      and dumps = "\<lambda>j. ''{}''" and ?sha256.0 = "\<lambda>bs. ''00''"
      and manifest = "ManifestDict (JDict [])" and file_map = "[(''a.bin'', ''x'')]" and cs = False,
      OF m d]
  have u: "[''out.stella'' \<mapsto> File (OtherFile ''old''), ''out.stella'' \<mapsto> File (OtherFile [])] =
           [''out.stella'' \<mapsto> File (OtherFile [])]"
    by simp
  show ?thesis
    using t [THEN conjunct1] t [THEN conjunct2, THEN mp, OF refl] unfolding u by (rule conjI)
qed

text \<open>
  The claim as stated fails: with nothing at the output path before the call and the
  write of the second entry raising, the call raises and a file is there afterwards,
  here the archive closed on the one entry written.
\<close>

theorem pack_not_atomic_counterexample:
  "(Map.empty :: filesystem) ''out.stella'' = None \<and>
   fst (pack_stella (\<lambda>j. ''{}'') (\<lambda>bs. ''00'') (\<lambda>fs p. (None, fs))
          (Failing OSError (ZipFile [(''manifest.json'', ''{}'')]))
          Map.empty ''out.stella'' (ManifestDict (JDict [])) [(''a.bin'', ''x'')] False) =
     Inl OSError \<and>
   snd (pack_stella (\<lambda>j. ''{}'') (\<lambda>bs. ''00'') (\<lambda>fs p. (None, fs))
          (Failing OSError (ZipFile [(''manifest.json'', ''{}'')]))
          Map.empty ''out.stella'' (ManifestDict (JDict [])) [(''a.bin'', ''x'')] False)
     ''out.stella'' = Some (File (ZipFile [(''manifest.json'', ''{}'')]))"
  by (simp add: pack_stella_def Let_def zip_open_w_def zip_write_close_def)

section \<open>Coordinates in float64\<close>

subsection \<open>The rounding\<close>

lemma bit_length_bounds: "0 < n \<Longrightarrow> 2 ^ (bit_length n - 1) \<le> n \<and> n < 2 ^ bit_length n"
proof (induction n rule: bit_length.induct)
  case (1 n)
  show ?case
  proof (cases "n div 2 = 0")
    case True
    then have "n = 1" using 1(2) by auto
    then show ?thesis by (simp add: bit_length.simps)
  next
    case False
    then have ih: "2 ^ (bit_length (n div 2) - 1) \<le> n div 2" "n div 2 < 2 ^ bit_length (n div 2)"
      using 1 by simp_all
    have b: "bit_length n = Suc (bit_length (n div 2))"
      using 1(2) by (subst bit_length.simps) simp
    have pos: "0 < bit_length (n div 2)"
      using False by (subst bit_length.simps) simp
    then have "(2 :: nat) ^ bit_length (n div 2) = 2 * 2 ^ (bit_length (n div 2) - 1)"
      by (cases "bit_length (n div 2)") simp_all
    then have "(2 :: nat) ^ bit_length (n div 2) \<le> n"
      using ih(1) by linarith
    moreover have "n < 2 * 2 ^ bit_length (n div 2)"
      using ih(2) by linarith
    ultimately show ?thesis
      unfolding b by simp
  qed
qed

lemma exponent_bounds:
  assumes "x \<noteq> 0"
  shows "2 powi (exponent x) \<le> \<bar>x\<bar>" and "\<bar>x\<bar> < 2 powi (exponent x + 1)"
proof -
  have "2 powi (exponent x) \<le> \<bar>x\<bar> \<and> \<bar>x\<bar> < 2 powi (exponent x + 1)"
  proof (cases "1 \<le> \<bar>x\<bar>")
    case True
    define n where "n = nat \<lfloor>\<bar>x\<bar>\<rfloor>"
    have n: "0 < n" "rat_of_nat n \<le> \<bar>x\<bar>" "\<bar>x\<bar> < rat_of_nat n + 1"
      using True unfolding n_def by (simp_all add: of_nat_nat floor_less_iff) linarith+
    note b = bit_length_bounds [OF n(1)]
    have e: "exponent x = int (bit_length n) - 1"
      using True by (simp add: exponent_def n_def)
    have p: "0 < bit_length n"
      using n(1) by (subst bit_length.simps) simp
    have "(2 :: rat) powi (int (bit_length n) - 1) = 2 ^ (bit_length n - 1)"
      using p by (metis of_nat_1 of_nat_diff power_int_of_nat Suc_leI One_nat_def)
    moreover have "(2 :: rat) ^ (bit_length n - 1) \<le> rat_of_nat n"
      using b by (metis of_nat_le_iff of_nat_numeral of_nat_power)
    moreover have "(2 :: rat) powi (int (bit_length n) - 1 + 1) = 2 ^ bit_length n"
      by simp
    moreover have "rat_of_nat n + 1 \<le> 2 ^ bit_length n"
    proof -
      have "n + 1 \<le> 2 ^ bit_length n" using b by simp
      then have "rat_of_nat (n + 1) \<le> rat_of_nat (2 ^ bit_length n)"
        by (rule of_nat_mono)
      then show ?thesis by simp
    qed
    ultimately show ?thesis
      unfolding e using n(2,3) by linarith
  next
    case False
    define y where "y = 1 / \<bar>x\<bar>"
    have y: "1 < y" "\<bar>x\<bar> = 1 / y" "0 < y"
      using False assms by (simp_all add: y_def)
    define c where "c = nat (\<lceil>y\<rceil> - 1)"
    have c: "0 < c" "rat_of_nat c < y" "y \<le> rat_of_nat c + 1"
    proof -
      have "2 \<le> \<lceil>y\<rceil>" using y(1) by (simp add: le_ceiling_iff)
      then show "0 < c" by (simp add: c_def)
      have "rat_of_nat c = of_int (\<lceil>y\<rceil> - 1)"
        using \<open>2 \<le> \<lceil>y\<rceil>\<close> by (simp add: c_def)
      then show "rat_of_nat c < y" "y \<le> rat_of_nat c + 1"
        by (simp_all add: ceiling_correct)
    qed
    note b = bit_length_bounds [OF c(1)]
    have e: "exponent x = - int (bit_length c)"
      using False by (simp add: exponent_def c_def y_def)
    have p: "0 < bit_length c"
      using c(1) by (subst bit_length.simps) simp
    have u: "y \<le> 2 ^ bit_length c"
    proof -
      have "c + 1 \<le> 2 ^ bit_length c" using b by simp
      then have "rat_of_nat (c + 1) \<le> rat_of_nat (2 ^ bit_length c)"
        by (rule of_nat_mono)
      then show ?thesis using c(3) by simp
    qed
    have l: "(2 :: rat) ^ (bit_length c - 1) < y"
    proof -
      have "rat_of_nat (2 ^ (bit_length c - 1)) \<le> rat_of_nat c"
        using b by (intro of_nat_mono) simp
      then have "(2 :: rat) ^ (bit_length c - 1) \<le> rat_of_nat c"
        by (simp only: of_nat_power of_nat_numeral)
      then show ?thesis using c(2) by linarith
    qed
    have 1: "(2 :: rat) powi (- int (bit_length c)) = 1 / 2 ^ bit_length c"
      by (simp add: power_int_minus inverse_eq_divide)
    have 2: "(2 :: rat) powi (- int (bit_length c) + 1) = 1 / 2 ^ (bit_length c - 1)"
    proof -
      have "- int (bit_length c) + 1 = - int (bit_length c - 1)"
        using p by simp
      then show ?thesis
        by (simp only: power_int_minus power_int_of_nat inverse_eq_divide)
    qed
    have "1 / 2 ^ bit_length c \<le> 1 / y"
      using u y(3) by (simp add: frac_le)
    moreover have "1 / y < 1 / 2 ^ (bit_length c - 1)"
      using l by (simp add: frac_less2)
    ultimately show ?thesis
      unfolding e 1 2 y(2) by simp
  qed
  then show "2 powi (exponent x) \<le> \<bar>x\<bar>" and "\<bar>x\<bar> < 2 powi (exponent x + 1)"
    by simp_all
qed

lemma exponent_eqI:
  assumes "x \<noteq> 0" and "2 powi e \<le> \<bar>x\<bar>" and "\<bar>x\<bar> < 2 powi (e + 1)"
  shows "exponent x = e"
proof (rule ccontr)
  assume ne: "exponent x \<noteq> e"
  note b = exponent_bounds [OF assms(1)]
  show False
  proof (cases "exponent x < e")
    case True
    then have "(2 :: rat) powi (exponent x + 1) \<le> 2 powi e"
      by (intro power_int_increasing) simp_all
    then show False using b(2) assms(2) by linarith
  next
    case False
    then have "e + 1 \<le> exponent x" using ne by simp
    then have "(2 :: rat) powi (e + 1) \<le> 2 powi (exponent x)"
      by (intro power_int_increasing) simp_all
    then show False using b(1) assms(3) by linarith
  qed
qed

lemma round_half_even_error: "\<bar>of_int (round_half_even q) - q\<bar> \<le> 1 / 2"
proof -
  have "of_int \<lfloor>q\<rfloor> \<le> q" "q < of_int \<lfloor>q\<rfloor> + 1"
    by linarith+
  then show ?thesis
    by (auto simp: round_half_even_def Let_def abs_le_iff)
qed

lemma round_half_even_eqI:
  assumes "\<bar>q - of_int n\<bar> < 1 / 2"
  shows "round_half_even q = n"
proof -
  have "\<bar>of_int (round_half_even q) - (of_int n :: rat)\<bar> < 1"
    using assms round_half_even_error [of q] by linarith
  then have "\<bar>(of_int (round_half_even q - n) :: rat)\<bar> < 1"
    by simp
  then have "\<bar>round_half_even q - n\<bar> < 1"
    by (metis of_int_abs of_int_less_1_iff)
  then show ?thesis by simp
qed

lemma round_binary64_error: "\<bar>round_binary64 x - x\<bar> \<le> \<bar>x\<bar> / 2 ^ 53"
proof (cases "x = 0")
  case True
  then show ?thesis by (simp add: round_binary64_def)
next
  case False
  define u :: rat where "u = 2 powi (exponent x - 52)"
  define n where "n = round_half_even (x / u)"
  have u: "0 < u" by (simp add: u_def)
  have "round_binary64 x = of_int n * u"
    using False by (simp add: round_binary64_def Let_def u_def n_def)
  then have "\<bar>round_binary64 x - x\<bar> = \<bar>of_int n * u - x\<bar>"
    by simp
  also have "of_int n * u - x = (of_int n - x / u) * u"
    using u by (simp add: left_diff_distrib)
  also have "\<bar>(of_int n - x / u) * u\<bar> = \<bar>of_int n - x / u\<bar> * u"
    using u by (simp add: abs_mult)
  also have "\<dots> \<le> 1 / 2 * u"
    using round_half_even_error [of "x / u"] u unfolding n_def by (intro mult_right_mono) simp_all
  also have "1 / 2 * u = 2 powi (exponent x) / 2 ^ 53"
  proof -
    have "(2 :: rat) powi (exponent x - 52) = 2 powi (exponent x) / 2 powi 52"
      by (rule power_int_diff) simp
    then show ?thesis by (simp add: u_def)
  qed
  also have "\<dots> \<le> \<bar>x\<bar> / 2 ^ 53"
    using exponent_bounds(1) [OF False] by (intro divide_right_mono) simp_all
  finally show ?thesis .
qed

lemma round_binary64_eqI:
  assumes "x \<noteq> 0" and "2 powi e \<le> \<bar>x\<bar>" and "\<bar>x\<bar> < 2 powi (e + 1)"
    and "\<bar>x / 2 powi (e - 52) - of_int n\<bar> < 1 / 2"
  shows "round_binary64 x = of_int n * 2 powi (e - 52)"
  using assms(1) exponent_eqI [OF assms(1,2,3)] round_half_even_eqI [OF assms(4)]
  by (simp add: round_binary64_def Let_def)
subsection \<open>The round trip of one coordinate\<close>

lemma error_bound:
  fixes x y k :: rat
  assumes "\<bar>y - x\<bar> \<le> \<bar>x\<bar> / 2 ^ 53" and "\<bar>x\<bar> \<le> k"
  shows "\<bar>y - x\<bar> \<le> k / 2 ^ 53"
proof -
  have "\<bar>x\<bar> / 2 ^ 53 \<le> k / 2 ^ 53"
    using assms(2) by (intro divide_right_mono) simp_all
  then show ?thesis using assms(1) by linarith
qed

lemma scaled_error:
  fixes x y v :: rat
  assumes "0 < v" and "\<bar>y - x\<bar> \<le> \<bar>x\<bar> / 2 ^ 53"
  shows "\<bar>y / v - x / v\<bar> \<le> \<bar>x / v\<bar> / 2 ^ 53"
proof -
  have "y / v - x / v = (y - x) / v"
    by (simp add: diff_divide_distrib)
  then have "\<bar>y / v - x / v\<bar> = \<bar>y - x\<bar> / v"
    using assms(1) by (simp add: abs_divide)
  also have "\<dots> \<le> (\<bar>x\<bar> / 2 ^ 53) / v"
    using assms by (intro divide_right_mono) simp_all
  also have "\<dots> = \<bar>x / v\<bar> / 2 ^ 53"
    using assms(1) by (simp add: abs_divide)
  finally show ?thesis .
qed

lemma cell_round_trip:
  fixes rnd :: "rat \<Rightarrow> rat" and voxel_size origin_c :: rat
  assumes r: "\<forall>x. \<bar>rnd x - x\<bar> \<le> \<bar>x\<bar> / 2 ^ 53"
    and v: "0 < voxel_size"
    and o: "\<bar>origin_c\<bar> \<le> 2 ^ 51 * voxel_size"
    and i: "0 \<le> index" "index < 2 ^ 32"
  shows "to_grid rnd voxel_size origin_c (to_world rnd voxel_size origin_c index) = index"
proof -
  define a where "a = rnd (of_int index)"
  define b where "b = rnd (a + 1 / 2)"
  define c where "c = rnd (b * voxel_size)"
  define w where "w = rnd (origin_c + c)"
  define d where "d = rnd (w - origin_c)"
  define q where "q = rnd (d / voxel_size)"
  define m :: rat where "m = of_int index + 1 / 2"
  have vn: "voxel_size \<noteq> 0" using v by simp
  have k1: "(4294967296 :: rat) / 2 ^ 53 = 1 / 2097152"
    and k2: "(8589934592 :: rat) / 2 ^ 53 = 1 / 1048576"
    and k3: "(2251799813685248 + 8589934592 :: rat) / 2 ^ 53 = 1 / 4 + 1 / 1048576"
    by simp_all
  have ii: "(0 :: rat) \<le> of_int index" "(of_int index :: rat) \<le> 4294967295"
  proof -
    show "(0 :: rat) \<le> of_int index" using i(1) by simp
    have "index \<le> 4294967295" using i(2) by simp
    then have "(of_int index :: rat) \<le> of_int 4294967295" by (rule of_int_le_iff [THEN iffD2])
    then show "(of_int index :: rat) \<le> 4294967295" by simp
  qed
  have m: "1 / 2 \<le> m" "m \<le> 4294967296"
    using ii by (simp_all add: m_def)
  have "\<bar>a - of_int index\<bar> \<le> 4294967296 / 2 ^ 53"
    unfolding a_def by (rule error_bound [OF r [rule_format]]) (use ii in simp)
  then have a1: "\<bar>a + 1 / 2 - m\<bar> \<le> 1 / 1048576"
    unfolding k1 m_def by linarith
  then have a2: "\<bar>a + 1 / 2\<bar> \<le> 8589934592"
    using m by linarith
  have "\<bar>b - (a + 1 / 2)\<bar> \<le> 8589934592 / 2 ^ 53"
    unfolding b_def by (rule error_bound [OF r [rule_format] a2])
  then have b1: "\<bar>b - m\<bar> \<le> 2 / 1048576"
    using a1 unfolding k2 by linarith
  then have b2: "\<bar>b\<bar> \<le> 8589934592"
    using m by linarith
  have "\<bar>c / voxel_size - b * voxel_size / voxel_size\<bar> \<le> \<bar>b * voxel_size / voxel_size\<bar> / 2 ^ 53"
    unfolding c_def by (rule scaled_error [OF v r [rule_format]])
  then have "\<bar>c / voxel_size - b\<bar> \<le> \<bar>b\<bar> / 2 ^ 53"
    using vn by simp
  then have "\<bar>c / voxel_size - b\<bar> \<le> 8589934592 / 2 ^ 53"
    using b2 by (rule error_bound)
  then have c1: "\<bar>c / voxel_size - m\<bar> \<le> 3 / 1048576"
    using b1 unfolding k2 by linarith
  then have c2: "\<bar>c / voxel_size\<bar> \<le> 8589934592"
    using m by linarith
  have o2: "\<bar>origin_c / voxel_size\<bar> \<le> 2251799813685248"
  proof -
    have "\<bar>origin_c\<bar> / voxel_size \<le> 2 ^ 51 * voxel_size / voxel_size"
      using o v by (intro divide_right_mono) simp_all
    then show ?thesis using v by (simp add: abs_divide)
  qed
  have oc: "(origin_c + c) / voxel_size = origin_c / voxel_size + c / voxel_size"
    by (simp add: add_divide_distrib)
  have "\<bar>w / voxel_size - (origin_c + c) / voxel_size\<bar> \<le>
        \<bar>(origin_c + c) / voxel_size\<bar> / 2 ^ 53"
    unfolding w_def by (rule scaled_error [OF v r [rule_format]])
  moreover have "\<bar>(origin_c + c) / voxel_size\<bar> \<le> 2251799813685248 + 8589934592"
    unfolding oc using o2 c2 by linarith
  ultimately have "\<bar>w / voxel_size - (origin_c + c) / voxel_size\<bar> \<le>
        (2251799813685248 + 8589934592) / 2 ^ 53"
    by (rule error_bound)
  moreover have "(w - origin_c) / voxel_size - c / voxel_size =
                 w / voxel_size - (origin_c + c) / voxel_size"
    by (simp add: diff_divide_distrib add_divide_distrib)
  ultimately have "\<bar>(w - origin_c) / voxel_size - c / voxel_size\<bar> \<le> 1 / 4 + 1 / 1048576"
    unfolding k3 by simp
  then have w1: "\<bar>(w - origin_c) / voxel_size - m\<bar> \<le> 1 / 4 + 4 / 1048576"
    using c1 by linarith
  then have w2: "\<bar>(w - origin_c) / voxel_size\<bar> \<le> 8589934592"
    using m by linarith
  have "\<bar>d / voxel_size - (w - origin_c) / voxel_size\<bar> \<le>
        \<bar>(w - origin_c) / voxel_size\<bar> / 2 ^ 53"
    unfolding d_def by (rule scaled_error [OF v r [rule_format]])
  then have "\<bar>d / voxel_size - (w - origin_c) / voxel_size\<bar> \<le> 8589934592 / 2 ^ 53"
    using w2 by (rule error_bound)
  then have d1: "\<bar>d / voxel_size - m\<bar> \<le> 1 / 4 + 5 / 1048576"
    using w1 unfolding k2 by linarith
  then have d2: "\<bar>d / voxel_size\<bar> \<le> 8589934592"
    using m by linarith
  have "\<bar>q - d / voxel_size\<bar> \<le> 8589934592 / 2 ^ 53"
    unfolding q_def by (rule error_bound [OF r [rule_format] d2])
  then have "\<bar>q - m\<bar> \<le> 1 / 4 + 6 / 1048576"
    using d1 unfolding k2 by linarith
  then have "of_int index \<le> q" "q < of_int index + 1"
    unfolding m_def by linarith+
  then have "\<lfloor>q\<rfloor> = index"
    by (intro floor_unique) simp_all
  then show ?thesis
    by (simp add: to_grid_def to_world_def q_def d_def w_def c_def b_def a_def)
qed

subsection \<open>An origin far from zero\<close>

lemma round_binary64_3: "round_binary64 3 = 3"
  using round_binary64_eqI [of 3 1 6755399441055744] by simp

lemma round_binary64_7_2: "round_binary64 (7 / 2) = 7 / 2"
  using round_binary64_eqI [of "7 / 2" 1 7881299347898368] by simp

lemma round_binary64_product:
  "round_binary64 (7 / 2 * (3602879701896397 / 36028797018963968)) =
   6305039478318695 / 18014398509481984"
  using round_binary64_eqI [of "7 / 2 * (3602879701896397 / 36028797018963968)" "- 2"
      6305039478318695]
  by simp

lemma round_binary64_absorbed:
  "round_binary64 (100000000000000000 + 6305039478318695 / 18014398509481984) =
   100000000000000000"
  using round_binary64_eqI [of "100000000000000000 + 6305039478318695 / 18014398509481984" 56
      6250000000000000]
  by simp

lemma far_origin_cell:
  "to_grid round_binary64 (3602879701896397 / 36028797018963968) 100000000000000000
     (to_world round_binary64 (3602879701896397 / 36028797018963968) 100000000000000000 3) = 0"
proof -
  have 1: "(of_int 3 :: rat) = 3" and 2: "(3 :: rat) + 1 / 2 = 7 / 2"
    by simp_all
  have w: "to_world round_binary64 (3602879701896397 / 36028797018963968) 100000000000000000 3 =
           100000000000000000"
    unfolding to_world_def 1 round_binary64_3 2 round_binary64_7_2 round_binary64_product
      round_binary64_absorbed ..
  show ?thesis
    unfolding w to_grid_def by (simp add: round_binary64_def)
qed

text \<open>
  Claim C9 (coordinate inverse), as the code has it. The two functions compute in
  float64, where every operation rounds with a relative error of at most \<open>2^-53\<close>. For
  a positive \<open>voxel_size\<close>, an origin of at most \<open>2^51\<close> voxels from zero on each axis,
  and indices from 0 up to but not including \<open>2^32\<close> (the format's largest dimension),
  \<open>world_to_grid\<close> of \<open>grid_to_world\<close> of the indices gives the indices back: the
  rounding moves the centre of a voxel by less than half a voxel.
\<close>

theorem coordinate_round_trip:
  assumes "\<forall>x. \<bar>rnd x - x\<bar> \<le> \<bar>x\<bar> / 2 ^ 53"
    and "0 < voxel_size"
    and "\<bar>origin_x\<bar> \<le> 2 ^ 51 * voxel_size"
    and "\<bar>origin_y\<bar> \<le> 2 ^ 51 * voxel_size"
    and "\<bar>origin_z\<bar> \<le> 2 ^ 51 * voxel_size"
    and "\<forall>(x, y, z) \<in> set indices.
           0 \<le> x \<and> x < 2 ^ 32 \<and> 0 \<le> y \<and> y < 2 ^ 32 \<and> 0 \<le> z \<and> z < 2 ^ 32"
  shows "world_to_grid rnd
           (grid_to_world rnd indices voxel_size (origin_x, origin_y, origin_z))
           voxel_size (origin_x, origin_y, origin_z) = indices"
proof -
  have "map (\<lambda>(x, y, z). (to_grid rnd voxel_size origin_x x, to_grid rnd voxel_size origin_y y,
                           to_grid rnd voxel_size origin_z z))
          (map (\<lambda>(x, y, z). (to_world rnd voxel_size origin_x x, to_world rnd voxel_size origin_y y,
                             to_world rnd voxel_size origin_z z)) indices) = indices"
    using assms(6)
  proof (induction indices)
    case Nil
    then show ?case by simp
  next
    case (Cons row indices)
    obtain x y z where row: "row = (x, y, z)"
      by (cases row) auto
    have b: "0 \<le> x" "x < 2 ^ 32" "0 \<le> y" "y < 2 ^ 32" "0 \<le> z" "z < 2 ^ 32"
      using Cons.prems unfolding row by simp_all
    have "to_grid rnd voxel_size origin_x (to_world rnd voxel_size origin_x x) = x"
      by (rule cell_round_trip [OF assms(1,2,3) b(1,2)])
    moreover have "to_grid rnd voxel_size origin_y (to_world rnd voxel_size origin_y y) = y"
      by (rule cell_round_trip [OF assms(1,2,4) b(3,4)])
    moreover have "to_grid rnd voxel_size origin_z (to_world rnd voxel_size origin_z z) = z"
      by (rule cell_round_trip [OF assms(1,2,5) b(5,6)])
    moreover have "map (\<lambda>(x, y, z). (to_grid rnd voxel_size origin_x x,
                              to_grid rnd voxel_size origin_y y, to_grid rnd voxel_size origin_z z))
          (map (\<lambda>(x, y, z). (to_world rnd voxel_size origin_x x, to_world rnd voxel_size origin_y y,
                             to_world rnd voxel_size origin_z z)) indices) = indices"
      using Cons.prems by (intro Cons.IH) simp
    ultimately show ?case
      unfolding row by simp
  qed
  then show ?thesis
    by (simp add: world_to_grid_def grid_to_world_def)
qed

theorem coordinate_round_trip_witness:
  "world_to_grid round_binary64
     (grid_to_world round_binary64 [(5, 10, 15), (0, 0, 0), (99, 49, 99)]
        (3602879701896397 / 18014398509481984) (1, 2, 3))
     (3602879701896397 / 18014398509481984) (1, 2, 3) =
   [(5, 10, 15), (0, 0, 0), (99, 49, 99)]"
proof -
  have r: "\<forall>x. \<bar>round_binary64 x - x\<bar> \<le> \<bar>x\<bar> / 2 ^ 53"
    using round_binary64_error by blast
  have v: "(0 :: rat) < 3602879701896397 / 18014398509481984"
    by simp
  have o: "\<bar>1 :: rat\<bar> \<le> 2 ^ 51 * (3602879701896397 / 18014398509481984)"
    "\<bar>2 :: rat\<bar> \<le> 2 ^ 51 * (3602879701896397 / 18014398509481984)"
    "\<bar>3 :: rat\<bar> \<le> 2 ^ 51 * (3602879701896397 / 18014398509481984)"
    by simp_all
  have i: "\<forall>(x, y, z) \<in> set ([(5, 10, 15), (0, 0, 0), (99, 49, 99)] :: (int \<times> int \<times> int) list).
           0 \<le> x \<and> x < 2 ^ 32 \<and> 0 \<le> y \<and> y < 2 ^ 32 \<and> 0 \<le> z \<and> z < 2 ^ 32"
    by simp
  show ?thesis
    by (rule coordinate_round_trip [OF r v o i])
qed

text \<open>
  The claim as stated, for every origin, fails: at an origin of \<open>10^17\<close> on each axis
  and a \<open>voxel_size\<close> of \<open>0.1\<close> (the float64 nearest to it), the centre of the voxel of
  index 3 is \<open>10^17 + 0.35\<close>, which rounds to \<open>10^17\<close>, and \<open>world_to_grid\<close> returns the
  index 0.
\<close>

theorem coordinate_round_trip_counterexample:
  "(0 :: rat) < 3602879701896397 / 36028797018963968 \<and>
   world_to_grid round_binary64
     (grid_to_world round_binary64 [(3, 3, 3)] (3602879701896397 / 36028797018963968)
        (100000000000000000, 100000000000000000, 100000000000000000))
     (3602879701896397 / 36028797018963968)
     (100000000000000000, 100000000000000000, 100000000000000000) =
   [(0, 0, 0)]"
  by (simp add: world_to_grid_def grid_to_world_def far_origin_cell)

end
